theory Spec2Isabelle
  imports Complex_Main "HOL-Library.Word"
begin

section \<open>Transition distributions of the HDP-HMM family (internals/transitions.py)\<close>

text \<open>
  A shallow embedding of the transition classes of \<^verbatim>\<open>internals/transitions.py\<close>.

  \<^item> An instance is a record of its attributes. The attributes that every constructor
    path assigns before anything reads them (\<open>state_dim\<close>, \<open>alpha\<close>, \<open>gamma\<close>, and for
    the classes that have them \<open>kappa\<close>, \<open>rho\<close>, \<open>rho_a_0\<close>, \<open>rho_b_0\<close>, \<open>alpha_obj\<close>,
    \<open>gamma_obj\<close>) are plain fields. The attributes assigned only while resampling
    (\<open>beta\<close>, \<open>A\<close>, \<open>fullA\<close>, \<open>trans_counts\<close>, \<open>m\<close>, \<open>newm\<close>) are optional fields:
    \<open>None\<close> is the absent attribute, and reading it raises AttributeError.
  \<^item> Every raise of the source is a value \<open>Inl e\<close> of the result type.
  \<^item> numpy's global random generator is a state \<open>'g\<close> threaded through the calls; the
    library's samplers (numpy.random, scipy.stats.gamma) and the DirGamma objects of
    \<^verbatim>\<open>basic/distributions.py\<close> are not part of this file of the repository, so they
    are the fields of an environment record that every method takes as a parameter.
  \<^item> The \<^verbatim>\<open>np.int32\<close> count matrices are matrices of 32-bit words read as signed;
    sums of them are numpy's 64-bit sums, taken here as unbounded integers.
  \<^item> Floating-point numbers are idealised as exact reals. With
    \<^verbatim>\<open>np.seterr(invalid='raise')\<close> a division 0/0 raises FloatingPointError; a
    division x/0 of a nonzero x gives an infinity in numpy, which the reals do not
    have: the model ends such a run with the value \<open>InfiniteValue\<close>.
\<close>

subsection \<open>Errors and sequencing\<close>

datatype error =
    AttributeError | AssertionError | IndexError | ValueError
  | FloatingPointError | ZeroDivisionError | AxisError | InfiniteValue

definition and_then :: "error + 'a \<Rightarrow> ('a \<Rightarrow> error + 'b) \<Rightarrow> error + 'b" where
  "and_then r f = (case r of Inl e \<Rightarrow> Inl e | Inr x \<Rightarrow> f x)"

text \<open>A comprehension or vectorised operation whose element function may raise.\<close>

fun mapE :: "('a \<Rightarrow> error + 'b) \<Rightarrow> 'a list \<Rightarrow> error + 'b list" where
  "mapE f [] = Inr []"
| "mapE f (x # xs) = and_then (f x) (\<lambda>y. and_then (mapE f xs) (\<lambda>ys. Inr (y # ys)))"

text \<open>A for loop over a list that updates a loop state and may raise.\<close>

fun foldE :: "('s \<Rightarrow> 'a \<Rightarrow> error + 's) \<Rightarrow> 'a list \<Rightarrow> 's \<Rightarrow> error + 's" where
  "foldE f [] s = Inr s"
| "foldE f (x # xs) s = and_then (f s x) (foldE f xs)"

text \<open>Element-wise sampling in order, the generator threaded from one draw to the next.\<close>

fun mapS :: "('a \<Rightarrow> 'g \<Rightarrow> error + 'b \<times> 'g) \<Rightarrow> 'a list \<Rightarrow> 'g \<Rightarrow> error + 'b list \<times> 'g" where
  "mapS f [] g = Inr ([], g)"
| "mapS f (x # xs) g =
     and_then (f x g) (\<lambda>(y, g1). and_then (mapS f xs g1) (\<lambda>(ys, g2). Inr (y # ys, g2)))"

definition getattr :: "'a option \<Rightarrow> error + 'a" where
  "getattr v = (case v of None \<Rightarrow> Inl AttributeError | Some x \<Rightarrow> Inr x)"

subsection \<open>Arrays\<close>

type_synonym int32 = "32 word"
type_synonym 'a matrix = "'a list list"

definition zeros :: "nat \<Rightarrow> int32 matrix" where
  "zeros n = replicate n (replicate n 0)"

text \<open>numpy's integer index into an axis of length \<open>n\<close>: negative indices count from the end.\<close>

definition np_index :: "nat \<Rightarrow> int \<Rightarrow> error + nat" where
  "np_index n i =
     (if 0 \<le> i \<and> i < int n then Inr (nat i)
      else if - int n \<le> i \<and> i < 0 then Inr (nat (i + int n))
      else Inl IndexError)"

text \<open>numpy's broadcasting of a binary operation over two one-dimensional arrays.\<close>

definition bcast2 :: "('a \<Rightarrow> 'b \<Rightarrow> 'c) \<Rightarrow> 'a list \<Rightarrow> 'b list \<Rightarrow> error + 'c list" where
  "bcast2 f xs ys =
     (if length xs = length ys then Inr (map (\<lambda>(x, y). f x y) (zip xs ys))
      else if length xs = 1 then Inr (map (f (hd xs)) ys)
      else if length ys = 1 then Inr (map (\<lambda>x. f x (hd ys)) xs)
      else Inl ValueError)"

text \<open>
  Element-wise division of arrays of one shape under \<^verbatim>\<open>np.seterr(invalid='raise')\<close>:
  the whole operation raises when some element is 0/0.
\<close>

definition np_divide :: "real list \<Rightarrow> real list \<Rightarrow> error + real list" where
  "np_divide xs ys =
     (if list_ex (\<lambda>(x, y). y = 0 \<and> x = 0) (zip xs ys) then Inl FloatingPointError
      else if list_ex (\<lambda>(x, y). y = 0) (zip xs ys) then Inl InfiniteValue
      else Inr (map (\<lambda>(x, y). x / y) (zip xs ys)))"

text \<open>\<^verbatim>\<open>a / d[:,na]\<close>: every row of the matrix divided by its entry of the column \<open>d\<close>.\<close>

definition divide_rows :: "real matrix \<Rightarrow> real list \<Rightarrow> error + real matrix" where
  "divide_rows a d =
     (let cells = concat (map (\<lambda>(row, y). map (\<lambda>x. (x, y)) row) (zip a d))
      in if list_ex (\<lambda>(x, y). y = 0 \<and> x = 0) cells then Inl FloatingPointError
         else if list_ex (\<lambda>(x, y). y = 0) cells then Inl InfiniteValue
         else Inr (map (\<lambda>(row, y). map (\<lambda>x. x / y) row) (zip a d)))"

definition ndenumerate :: "'a matrix \<Rightarrow> ((nat \<times> nat) \<times> 'a) list" where
  "ndenumerate a =
     concat (map (\<lambda>(i, row). map (\<lambda>(j, v). ((i, j), v)) (enumerate 0 row)) (enumerate 0 a))"

text \<open>\<^verbatim>\<open>np.triu(a)\<close> keeps the entries on and above the diagonal, \<^verbatim>\<open>np.tril(a,-1)\<close>
  those strictly below it.\<close>

definition triu :: "'a::zero matrix \<Rightarrow> 'a matrix" where
  "triu a = map (\<lambda>(i, row). map (\<lambda>(j, x). if i \<le> j then x else 0) (enumerate 0 row)) (enumerate 0 a)"

definition tril_1 :: "'a::zero matrix \<Rightarrow> 'a matrix" where
  "tril_1 a = map (\<lambda>(i, row). map (\<lambda>(j, x). if j < i then x else 0) (enumerate 0 row)) (enumerate 0 a)"

definition all_zero :: "'a::zero matrix \<Rightarrow> bool" where
  "all_zero a = list_all (list_all (\<lambda>v. v = 0)) a"

text \<open>Sums of an int32 matrix: along axis 0 (per column), along axis 1 (per row), total.\<close>

definition sum_axis0 :: "int32 matrix \<Rightarrow> int list" where
  "sum_axis0 a =
     (case a of [] \<Rightarrow> []
      | r # _ \<Rightarrow> map (\<lambda>j. sum_list (map (\<lambda>row. sint (row ! j)) a)) [0..<length r])"

definition sum_axis1 :: "int32 matrix \<Rightarrow> int list" where
  "sum_axis1 a = map (\<lambda>row. sum_list (map sint row)) a"

definition sum_all :: "int32 matrix \<Rightarrow> int" where
  "sum_all a = sum_list (sum_axis1 a)"

definition to_float :: "int32 matrix \<Rightarrow> real matrix" where
  "to_float a = map (map (\<lambda>w. real_of_int (sint w))) a"

text \<open>
  The flat positions \<^verbatim>\<open>0, n+1, 2(n+1), ...\<close> of \<^verbatim>\<open>a.flat[::a.shape[0]+1]\<close>: the cell
  in row \<open>i\<close> and column \<open>j\<close> of a matrix with \<open>c\<close> columns has the flat position
  \<open>i * c + j\<close>. For a square matrix these are the diagonal cells.
\<close>

definition on_flat_stride :: "'a matrix \<Rightarrow> nat \<Rightarrow> nat \<Rightarrow> bool" where
  "on_flat_stride a i j = ((i * length (a ! i) + j) mod (length a + 1) = 0)"

definition flat_stride :: "'a matrix \<Rightarrow> 'a list" where
  "flat_stride a = map (\<lambda>(p, v). v) (filter (\<lambda>((i, j), v). on_flat_stride a i j) (ndenumerate a))"

subsection \<open>The library environment\<close>

text \<open>
  Modelled from the spec: \<^verbatim>\<open>DirGamma\<close> (basic/distributions.py) is not in the source
  tree. The spec gives its contract: \<^verbatim>\<open>resample(counts, weights?, iterations)\<close> updates
  an internal concentration value, exposed as the scalar \<^verbatim>\<open>concentration\<close>.
\<close>

record dirgamma =
  concentration :: real

text \<open>
  The samplers, as the source calls them. \<open>np_rand1\<close> is one uniform draw of
  \<^verbatim>\<open>np.random.rand\<close>; \<open>stats_gamma_rvs1\<close> and \<open>np_binomial1\<close> are one element of the
  vectorised \<^verbatim>\<open>stats.gamma.rvs\<close> and \<^verbatim>\<open>np.random.binomial\<close>. A sampler may raise (a
  parameter outside its domain). \<open>flat_slice_is_view\<close> says whether an assignment into
  the array got by slicing \<^verbatim>\<open>a.flat\<close> reaches \<open>a\<close> (numpy's flatiter returns a copy).
  \<open>rvs_drops_unit_axes\<close> says whether \<^verbatim>\<open>stats.gamma.rvs\<close>, called without a size,
  removes the leading axes of length 1 from the shape of its result, as the scipy
  releases do that squeeze the broadcast arguments from the left: the draw for an
  argument of one row is then a vector (a scalar, for one cell), not a matrix.
\<close>

record 'g numpy =
  np_rand1 :: "'g \<Rightarrow> real \<times> 'g"
  np_geometric :: "real \<Rightarrow> int \<Rightarrow> 'g \<Rightarrow> error + int list \<times> 'g"
  np_multinomial :: "int \<Rightarrow> real list \<Rightarrow> 'g \<Rightarrow> error + int list \<times> 'g"
  np_binomial1 :: "int \<Rightarrow> real \<Rightarrow> 'g \<Rightarrow> error + int \<times> 'g"
  np_dirichlet :: "real list \<Rightarrow> 'g \<Rightarrow> error + real list \<times> 'g"
  np_beta :: "real \<Rightarrow> real \<Rightarrow> 'g \<Rightarrow> error + real \<times> 'g"
  stats_gamma_rvs1 :: "real \<Rightarrow> 'g \<Rightarrow> error + real \<times> 'g"
  dirgamma_resample ::
    "dirgamma \<Rightarrow> int32 matrix \<Rightarrow> real list option \<Rightarrow> nat \<Rightarrow> 'g \<Rightarrow> error + dirgamma \<times> 'g"
  flat_slice_is_view :: bool
  rvs_drops_unit_axes :: bool

fun rand :: "'g numpy \<Rightarrow> nat \<Rightarrow> 'g \<Rightarrow> real list \<times> 'g" where
  "rand R 0 g = ([], g)"
| "rand R (Suc n) g =
     (case np_rand1 R g of (u, g1) \<Rightarrow> case rand R n g1 of (us, g2) \<Rightarrow> (u # us, g2))"

text \<open>\<^verbatim>\<open>np.random.rand(val)\<close>: a negative size raises.\<close>

definition np_random_rand :: "'g numpy \<Rightarrow> int \<Rightarrow> 'g \<Rightarrow> error + real list \<times> 'g" where
  "np_random_rand R n g = (if n < 0 then Inl ValueError else Inr (rand R (nat n) g))"

subsection \<open>Classes and instances\<close>

datatype cls =
    ConcentrationResampling | HDPHMMTransitions | HDPHMMTransitionsConcResampling
  | LTRHDPHMMTransitions | HDPHSMMTransitions | HDPHSMMTransitionsConcResampling
  | StickyHDPHMMTransitions | StickyHDPHMMTransitionsConcResampling
  | StickyLTRHDPHMMTransitions

text \<open>The method resolution order of each class (C3 linearisation of its bases).\<close>

fun mro :: "cls \<Rightarrow> cls list" where
  "mro ConcentrationResampling = [ConcentrationResampling]"
| "mro HDPHMMTransitions = [HDPHMMTransitions]"
| "mro HDPHMMTransitionsConcResampling =
     [HDPHMMTransitionsConcResampling, HDPHMMTransitions, ConcentrationResampling]"
| "mro LTRHDPHMMTransitions = [LTRHDPHMMTransitions, HDPHMMTransitions]"
| "mro HDPHSMMTransitions = [HDPHSMMTransitions, HDPHMMTransitions]"
| "mro HDPHSMMTransitionsConcResampling =
     [HDPHSMMTransitionsConcResampling, HDPHSMMTransitions, HDPHMMTransitions,
      ConcentrationResampling]"
| "mro StickyHDPHMMTransitions = [StickyHDPHMMTransitions, HDPHMMTransitions]"
| "mro StickyHDPHMMTransitionsConcResampling =
     [StickyHDPHMMTransitionsConcResampling, StickyHDPHMMTransitions, HDPHMMTransitions,
      ConcentrationResampling]"
| "mro StickyLTRHDPHMMTransitions =
     [StickyLTRHDPHMMTransitions, LTRHDPHMMTransitions, StickyHDPHMMTransitions,
      HDPHMMTransitions]"

record transitions =
  klass :: cls
  state_dim :: nat
  alpha :: real
  gamma :: real
  kappa :: real
  rho :: real
  rho_a_0 :: real
  rho_b_0 :: real
  alpha_obj :: dirgamma
  gamma_obj :: dirgamma
  beta :: "real list option"
  self_A :: "real matrix option"
  fullA :: "real matrix option"
  trans_counts :: "int32 matrix option"
  self_m :: "int32 matrix option"
  newm :: "int32 matrix option"

subsection \<open>HDPHMMTransitions\<close>

text \<open>\<^verbatim>\<open>trans_counts[states[idx],states[idx+1]] += 1\<close> on the int32 matrix.\<close>

definition incr_cell :: "int32 matrix \<Rightarrow> int \<times> int \<Rightarrow> error + int32 matrix" where
  "incr_cell tc p =
     and_then (np_index (length tc) (fst p)) (\<lambda>i.
     and_then (np_index (length (tc ! i)) (snd p)) (\<lambda>j.
     Inr (tc[i := (tc ! i)[j := tc ! i ! j + 1]])))"

definition count_sequence :: "int32 matrix \<Rightarrow> int list \<Rightarrow> error + int32 matrix" where
  "count_sequence tc states =
     (if length states \<ge> 2
      then foldE (\<lambda>tc idx. incr_cell tc (states ! idx, states ! (idx + 1)))
             [0..<length states - 1] tc
      else Inr tc)"

definition HDPHMM_count_transitions ::
  "transitions \<Rightarrow> int list list \<Rightarrow> error + int32 matrix \<times> transitions" where
  "HDPHMM_count_transitions self states_list =
     and_then (foldE count_sequence states_list (zeros (state_dim self))) (\<lambda>tc.
     Inr (tc, self\<lparr>trans_counts := Some tc\<rparr>))"


text \<open>One cell of the loop of \<^verbatim>\<open>_get_m\<close>: \<open>val\<close> uniform draws, compared one by one with
  \<^verbatim>\<open>alpha*beta[colidx] / (arange(val) + alpha*beta[colidx])\<close>; the number of draws below
  their threshold is stored, as an int32, in \<^verbatim>\<open>m[rowidx,colidx]\<close>.\<close>

definition successes :: "real list \<Rightarrow> real list \<Rightarrow> nat" where
  "successes us thr = length (filter (\<lambda>(u, t). u < t) (zip us thr))"

definition thresholds :: "real \<Rightarrow> nat \<Rightarrow> error + real list" where
  "thresholds ab n = np_divide (replicate n ab) (map (\<lambda>k. real k + ab) [0..<n])"

definition get_m_cell ::
  "'g numpy \<Rightarrow> transitions \<Rightarrow> int32 matrix \<times> 'g \<Rightarrow> (nat \<times> nat) \<times> int32 \<Rightarrow> error + int32 matrix \<times> 'g" where
  "get_m_cell R self mg cell =
     (case cell of ((rowidx, colidx), val) \<Rightarrow> case mg of (m, g) \<Rightarrow>
      and_then (np_random_rand R (sint val) g) (\<lambda>(us, g1).
      and_then (getattr (beta self)) (\<lambda>b.
      and_then (if colidx < length b then Inr (b ! colidx) else Inl IndexError) (\<lambda>bc.
      and_then (thresholds (alpha self * bc) (nat (sint val))) (\<lambda>thr.
      if rowidx < length m \<and> colidx < length (m ! rowidx)
      then Inr (m[rowidx := (m ! rowidx)[colidx := of_nat (successes us thr)]], g1)
      else Inl IndexError)))))"

definition HDPHMM_get_m ::
  "'g numpy \<Rightarrow> transitions \<Rightarrow> int32 matrix \<Rightarrow> 'g \<Rightarrow> error + int32 matrix \<times> transitions \<times> 'g" where
  "HDPHMM_get_m R self tc g =
     and_then
       (if \<not> all_zero tc
        then foldE (get_m_cell R self) (ndenumerate tc) (zeros (state_dim self), g)
        else Inr (zeros (state_dim self), g))
       (\<lambda>(m, g1). Inr (m, self\<lparr>self_m := Some m\<rparr>, g1))"

text \<open>\<^verbatim>\<open>self.beta = np.random.dirichlet(self.gamma / self.state_dim + m.sum(0) + 1e-2)\<close>.
  The division is Python's true division of two scalars.\<close>

definition HDPHMM_resample_beta ::
  "'g numpy \<Rightarrow> transitions \<Rightarrow> int32 matrix \<Rightarrow> 'g \<Rightarrow> error + transitions \<times> 'g" where
  "HDPHMM_resample_beta R self m g =
     (if state_dim self = 0 then Inl ZeroDivisionError
      else and_then
        (np_dirichlet R
           (map (\<lambda>c. gamma self / real (state_dim self) + real_of_int c + 1 / 100) (sum_axis0 m)) g)
        (\<lambda>(b, g1). Inr (self\<lparr>beta := Some b\<rparr>, g1)))"

text \<open>\<^verbatim>\<open>self.A = stats.gamma.rvs(self.alpha * self.beta + trans_counts + 1e-2)\<close>, then
  \<^verbatim>\<open>self.A /= self.A.sum(1)[:,na]\<close>. The argument is an int32 matrix or, from the sticky
  classes, a float matrix: the callers pass it converted (\<open>to_float\<close>). The draw is one
  gamma variate for each cell of the argument. Where the library removes leading axes
  of length 1 and the argument has one row, \<open>self.A\<close> is not a matrix after the first
  line, and \<^verbatim>\<open>self.A.sum(1)\<close> on the second raises AxisError.\<close>

definition gamma_shape :: "transitions \<Rightarrow> real list \<Rightarrow> real matrix \<Rightarrow> error + real matrix" where
  "gamma_shape self b tc =
     and_then (mapE (\<lambda>row. bcast2 (+) (map (\<lambda>x. alpha self * x) b) row) tc) (\<lambda>s.
     Inr (map (map (\<lambda>x. x + 1 / 100)) s))"

definition HDPHMM_resample_A ::
  "'g numpy \<Rightarrow> transitions \<Rightarrow> real matrix \<Rightarrow> 'g \<Rightarrow> error + transitions \<times> 'g" where
  "HDPHMM_resample_A R self tc g =
     and_then (getattr (beta self)) (\<lambda>b.
     and_then (gamma_shape self b tc) (\<lambda>shape.
     and_then (mapS (mapS (stats_gamma_rvs1 R)) shape g) (\<lambda>(a, g1).
     if rvs_drops_unit_axes R \<and> length shape = 1 then Inl AxisError
     else and_then (divide_rows a (map sum_list a)) (\<lambda>a'.
          Inr (self\<lparr>self_A := Some a'\<rparr>, g1)))))"

subsection \<open>LTRHDPHMMTransitions\<close>

text \<open>\<^verbatim>\<open>trans_counts[i,:i] = v\<close>: the first \<open>i\<close> cells of row \<open>i\<close> are overwritten, the
  64-bit values cast to int32.\<close>

definition assign_row_prefix :: "int32 matrix \<Rightarrow> nat \<Rightarrow> int list \<Rightarrow> error + int32 matrix" where
  "assign_row_prefix tc i v =
     (let row = tc ! i; n = min i (length row)
      in if length v = n then Inr (tc[i := map word_of_int v @ drop n row])
         else if length v = 1 then Inr (tc[i := replicate n (word_of_int (hd v)) @ drop n row])
         else Inl ValueError)"

text \<open>The body of the loop over the rows in \<^verbatim>\<open>LTRHDPHMMTransitions._count_transitions\<close>.\<close>

definition LTR_row ::
  "'g numpy \<Rightarrow> real matrix \<Rightarrow> int list \<Rightarrow> real list \<Rightarrow> int32 matrix \<times> 'g \<Rightarrow> nat
     \<Rightarrow> error + int32 matrix \<times> 'g" where
  "LTR_row R fa totalfrom totalweight tg i =
     (case tg of (tc, g) \<Rightarrow>
      and_then (if i < length totalweight then Inr (totalweight ! i) else Inl IndexError) (\<lambda>w.
      and_then (np_geometric R w (totalfrom ! i) g) (\<lambda>(draws, g1).
      let tot = sum_list draws; part = take i (fa ! i)
      in and_then (np_divide part (replicate (length part) (sum_list part))) (\<lambda>pvals.
         and_then (np_multinomial R tot pvals g1) (\<lambda>(split, g2).
         and_then (assign_row_prefix tc i split) (\<lambda>tc'. Inr (tc', g2)))))))"

text \<open>The array the base method stored in \<^verbatim>\<open>self.trans_counts\<close> is the one the loop
  then changes in place, so the attribute ends as the augmented matrix.\<close>

definition LTR_count_transitions ::
  "('g numpy \<Rightarrow> transitions \<Rightarrow> int list list \<Rightarrow> 'g \<Rightarrow> error + int32 matrix \<times> transitions \<times> 'g)
     \<Rightarrow> 'g numpy \<Rightarrow> transitions \<Rightarrow> int list list \<Rightarrow> 'g
     \<Rightarrow> error + int32 matrix \<times> transitions \<times> 'g" where
  "LTR_count_transitions super R self states_list g =
     and_then (super R self states_list g) (\<lambda>(tc, self1, g1).
     if \<not> all_zero (tril_1 tc) then Inl AssertionError
     else let totalfrom = sum_axis1 tc
          in and_then (getattr (fullA self1)) (\<lambda>fa.
             let totalweight = map sum_list (triu fa)
             in and_then (foldE (LTR_row R fa totalfrom totalweight) [0..<length tc] (tc, g1))
                  (\<lambda>(tc', g2). Inr (tc', self1\<lparr>trans_counts := Some tc'\<rparr>, g2))))"

definition LTR_resample_A ::
  "('g numpy \<Rightarrow> transitions \<Rightarrow> real matrix \<Rightarrow> 'g \<Rightarrow> error + transitions \<times> 'g)
     \<Rightarrow> 'g numpy \<Rightarrow> transitions \<Rightarrow> real matrix \<Rightarrow> 'g \<Rightarrow> error + transitions \<times> 'g" where
  "LTR_resample_A super R self tc g =
     and_then (super R self tc g) (\<lambda>(self1, g1).
     and_then (getattr (self_A self1)) (\<lambda>a.
     and_then (divide_rows (triu a) (map sum_list (triu a))) (\<lambda>a'.
     Inr (self1\<lparr>fullA := Some a, self_A := Some a'\<rparr>, g1))))"


subsection \<open>HDPHSMMTransitions\<close>

text \<open>
  Modelled from the spec: \<^verbatim>\<open>rle\<close> (util/general.py) is not in the source tree. The spec
  describes it as the run-length encoding that collapses consecutive repeated states
  into the sequence of distinct states, with their run lengths; the call site takes
  component 0 of its result as the collapsed label sequence.
\<close>

fun rle :: "int list \<Rightarrow> int list \<times> nat list" where
  "rle [] = ([], [])"
| "rle (x # xs) =
     (case rle xs of
        (y # ys, n # ns) \<Rightarrow> if x = y then (y # ys, Suc n # ns) else (x # y # ys, 1 # n # ns)
      | _ \<Rightarrow> ([x], [1]))"

text \<open>\<^verbatim>\<open>states_noreps = map(operator.itemgetter(0),map(rle, stateseqs))\<close>.\<close>

definition states_noreps :: "int list list \<Rightarrow> int list list" where
  "states_noreps stateseqs = map fst (map rle stateseqs)"

definition diagonal :: "'a matrix \<Rightarrow> 'a list" where
  "diagonal a =
     (case a of [] \<Rightarrow> [] | r # _ \<Rightarrow> map (\<lambda>i. a ! i ! i) [0..<min (length a) (length r)])"

text \<open>\<^verbatim>\<open>trans_counts += np.diag(self_transitions)\<close>, in place on the int32 matrix: the
  diagonal matrix must have the shape of \<open>trans_counts\<close>, or be 1 by 1 and broadcast.\<close>

definition iadd_diag :: "int32 matrix \<Rightarrow> int list \<Rightarrow> error + int32 matrix" where
  "iadd_diag tc st =
     (let k = length st
      in if (k = length tc \<or> k = 1) \<and> list_all (\<lambda>row. k = length row \<or> k = 1) tc
         then Inr (map (\<lambda>(i, row).
                map (\<lambda>(j, w). w + word_of_int (if k = 1 then st ! 0 else if i = j then st ! i else 0))
                  (enumerate 0 row)) (enumerate 0 tc))
         else Inl ValueError)"

text \<open>One element of the list comprehension of \<^verbatim>\<open>_augment_data\<close>:
  \<^verbatim>\<open>np.random.geometric(1-pi_ii,size=n).sum() if n > 0 else 0\<close>.\<close>

definition self_transition :: "'g numpy \<Rightarrow> real \<times> int \<Rightarrow> 'g \<Rightarrow> error + int \<times> 'g" where
  "self_transition R pn g =
     (case pn of (pi_ii, n) \<Rightarrow>
      if n > 0 then and_then (np_geometric R (1 - pi_ii) n g) (\<lambda>(draws, g1). Inr (sum_list draws, g1))
      else Inr (0, g))"

definition HSMM_augment_data ::
  "'g numpy \<Rightarrow> transitions \<Rightarrow> int32 matrix \<Rightarrow> 'g \<Rightarrow> error + int32 matrix \<times> transitions \<times> 'g" where
  "HSMM_augment_data R self tc g =
     and_then
       (if sum_all tc > 0
        then let froms = sum_axis1 tc
             in and_then (getattr (fullA self)) (\<lambda>fa.
                and_then (mapS (self_transition R) (zip (diagonal fa) froms) g)
                  (\<lambda>(self_transitions, g1).
                and_then (iadd_diag tc self_transitions) (\<lambda>tc'. Inr (tc', g1))))
        else Inr (tc, g))
       (\<lambda>(tc', g1). Inr (tc', self\<lparr>trans_counts := Some tc'\<rparr>, g1))"

text \<open>\<^verbatim>\<open>self.A.flat[::self.A.shape[0]+1] = 0\<close>.\<close>

definition zero_flat_stride :: "real matrix \<Rightarrow> real matrix" where
  "zero_flat_stride a =
     map (\<lambda>(i, row). map (\<lambda>(j, x). if on_flat_stride a i j then 0 else x) (enumerate 0 row))
       (enumerate 0 a)"

definition HSMM_resample_A ::
  "('g numpy \<Rightarrow> transitions \<Rightarrow> real matrix \<Rightarrow> 'g \<Rightarrow> error + transitions \<times> 'g)
     \<Rightarrow> 'g numpy \<Rightarrow> transitions \<Rightarrow> real matrix \<Rightarrow> 'g \<Rightarrow> error + transitions \<times> 'g" where
  "HSMM_resample_A super R self augmented_data g =
     and_then (super R self augmented_data g) (\<lambda>(self1, g1).
     and_then (getattr (self_A self1)) (\<lambda>a.
     let z = zero_flat_stride a
     in and_then (divide_rows z (map sum_list z)) (\<lambda>a'.
        Inr (self1\<lparr>fullA := Some a, self_A := Some a'\<rparr>, g1))))"

subsection \<open>StickyHDPHMMTransitions\<close>

text \<open>The cells of \<^verbatim>\<open>a.flat[::a.shape[0]+1]\<close>, in order, and the assignment
  \<^verbatim>\<open>a.flat[::a.shape[0]+1][indices] = vals\<close> when it reaches \<open>a\<close>.\<close>

definition flat_positions :: "'a matrix \<Rightarrow> (nat \<times> nat) list" where
  "flat_positions a = map fst (filter (\<lambda>((i, j), v). on_flat_stride a i j) (ndenumerate a))"

definition write_flat_stride :: "'a matrix \<Rightarrow> nat list \<Rightarrow> 'a list \<Rightarrow> 'a matrix" where
  "write_flat_stride a indices vals =
     fold (\<lambda>(k, v) a'. case flat_positions a ! k of (i, j) \<Rightarrow> a'[i := (a' ! i)[j := v]])
       (zip indices vals) a"

text \<open>\<^verbatim>\<open>np.nonzero(d)\<close> of a one-dimensional array.\<close>

definition nonzero :: "'a::zero list \<Rightarrow> nat list" where
  "nonzero d = filter (\<lambda>k. d ! k \<noteq> 0) [0..<length d]"

definition Sticky_resample_beta ::
  "('g numpy \<Rightarrow> transitions \<Rightarrow> int32 matrix \<Rightarrow> 'g \<Rightarrow> error + transitions \<times> 'g)
     \<Rightarrow> 'g numpy \<Rightarrow> transitions \<Rightarrow> int32 matrix \<Rightarrow> 'g \<Rightarrow> error + transitions \<times> 'g" where
  "Sticky_resample_beta super R self m g =
     and_then
       (if sum_all m > 0
        then let indices = nonzero (flat_stride m);
                 ns = map (\<lambda>k. sint (flat_stride m ! k)) indices
             in and_then (getattr (beta self)) (\<lambda>b.
                and_then (mapE (\<lambda>k. if k < length b then Inr (b ! k) else Inl IndexError) indices)
                  (\<lambda>bs.
                and_then (np_divide (map (\<lambda>x. x * alpha self) bs)
                            (map (\<lambda>x. x * alpha self + kappa self) bs)) (\<lambda>ps.
                and_then (mapS (\<lambda>(n, p). np_binomial1 R n p) (zip ns ps) g) (\<lambda>(draws, g1).
                Inr (if flat_slice_is_view R
                     then write_flat_stride m indices (map word_of_int draws) else m, g1)))))
        else Inr (m, g))
       (\<lambda>(newm', g1). super R (self\<lparr>newm := Some newm'\<rparr>) newm' g1)"

text \<open>\<^verbatim>\<open>data + np.diag(self.kappa * np.ones(data.shape[0]))\<close>.\<close>

definition add_kappa_diag :: "real \<Rightarrow> real matrix \<Rightarrow> error + real matrix" where
  "add_kappa_diag k data =
     mapE (\<lambda>(i, row). bcast2 (+) row ((replicate (length data) 0)[i := k])) (enumerate 0 data)"

definition Sticky_resample_A ::
  "('g numpy \<Rightarrow> transitions \<Rightarrow> real matrix \<Rightarrow> 'g \<Rightarrow> error + transitions \<times> 'g)
     \<Rightarrow> 'g numpy \<Rightarrow> transitions \<Rightarrow> real matrix \<Rightarrow> 'g \<Rightarrow> error + transitions \<times> 'g" where
  "Sticky_resample_A super R self data g =
     and_then (add_kappa_diag (kappa self) data) (\<lambda>aug_data. super R self aug_data g)"

subsection \<open>StickyLTRHDPHMMTransitions\<close>

definition StickyLTR_resample_A ::
  "('g numpy \<Rightarrow> transitions \<Rightarrow> real matrix \<Rightarrow> 'g \<Rightarrow> error + transitions \<times> 'g)
     \<Rightarrow> 'g numpy \<Rightarrow> transitions \<Rightarrow> real matrix \<Rightarrow> 'g \<Rightarrow> error + transitions \<times> 'g" where
  "StickyLTR_resample_A super R self data g =
     and_then (add_kappa_diag (kappa self) data) (\<lambda>aug_data. super R self aug_data g)"

subsection \<open>Method lookup\<close>

text \<open>
  \<^verbatim>\<open>self._count_transitions\<close>, \<^verbatim>\<open>self._resample_beta\<close> and \<^verbatim>\<open>self._resample_A\<close> are
  looked up along the method resolution order of the instance's class; a
  \<^verbatim>\<open>super(C,self)\<close> call continues the lookup after \<open>C\<close>. A class that does not define
  the method is skipped.
\<close>

primrec count_transitions_via ::
  "cls list \<Rightarrow> 'g numpy \<Rightarrow> transitions \<Rightarrow> int list list \<Rightarrow> 'g
     \<Rightarrow> error + int32 matrix \<times> transitions \<times> 'g" where
  "count_transitions_via [] = (\<lambda>R self states_list g. Inl AttributeError)"
| "count_transitions_via (c # rest) =
     (if c = LTRHDPHMMTransitions then LTR_count_transitions (count_transitions_via rest)
      else if c = HDPHMMTransitions
      then (\<lambda>R self states_list g.
              and_then (HDPHMM_count_transitions self states_list) (\<lambda>(tc, self1). Inr (tc, self1, g)))
      else count_transitions_via rest)"

primrec resample_beta_via ::
  "cls list \<Rightarrow> 'g numpy \<Rightarrow> transitions \<Rightarrow> int32 matrix \<Rightarrow> 'g \<Rightarrow> error + transitions \<times> 'g" where
  "resample_beta_via [] = (\<lambda>R self m g. Inl AttributeError)"
| "resample_beta_via (c # rest) =
     (if c = StickyHDPHMMTransitions then Sticky_resample_beta (resample_beta_via rest)
      else if c = HDPHMMTransitions then HDPHMM_resample_beta
      else resample_beta_via rest)"

primrec resample_A_via ::
  "cls list \<Rightarrow> 'g numpy \<Rightarrow> transitions \<Rightarrow> real matrix \<Rightarrow> 'g \<Rightarrow> error + transitions \<times> 'g" where
  "resample_A_via [] = (\<lambda>R self tc g. Inl AttributeError)"
| "resample_A_via (c # rest) =
     (if c = StickyLTRHDPHMMTransitions then StickyLTR_resample_A (resample_A_via rest)
      else if c = LTRHDPHMMTransitions then LTR_resample_A (resample_A_via rest)
      else if c = HDPHSMMTransitions then HSMM_resample_A (resample_A_via rest)
      else if c = StickyHDPHMMTransitions then Sticky_resample_A (resample_A_via rest)
      else if c = HDPHMMTransitions then HDPHMM_resample_A
      else resample_A_via rest)"

definition count_transitions ::
  "'g numpy \<Rightarrow> transitions \<Rightarrow> int list list \<Rightarrow> 'g \<Rightarrow> error + int32 matrix \<times> transitions \<times> 'g" where
  "count_transitions R self = count_transitions_via (mro (klass self)) R self"

definition resample_beta ::
  "'g numpy \<Rightarrow> transitions \<Rightarrow> int32 matrix \<Rightarrow> 'g \<Rightarrow> error + transitions \<times> 'g" where
  "resample_beta R self = resample_beta_via (mro (klass self)) R self"

definition resample_A ::
  "'g numpy \<Rightarrow> transitions \<Rightarrow> real matrix \<Rightarrow> 'g \<Rightarrow> error + transitions \<times> 'g" where
  "resample_A R self = resample_A_via (mro (klass self)) R self"

subsection \<open>The resample methods\<close>

definition HDPHMM_resample ::
  "'g numpy \<Rightarrow> transitions \<Rightarrow> int list list \<Rightarrow> 'g \<Rightarrow> error + transitions \<times> 'g" where
  "HDPHMM_resample R self states_list g =
     and_then (count_transitions R self states_list g) (\<lambda>(tc, self1, g1).
     and_then (HDPHMM_get_m R self1 tc g1) (\<lambda>(m, self2, g2).
     and_then (resample_beta R self2 m g2) (\<lambda>(self3, g3).
     resample_A R self3 (to_float tc) g3)))"

definition HSMM_resample ::
  "'g numpy \<Rightarrow> transitions \<Rightarrow> int list list \<Rightarrow> 'g \<Rightarrow> error + transitions \<times> 'g" where
  "HSMM_resample R self stateseqs g =
     and_then (count_transitions R self (states_noreps stateseqs) g) (\<lambda>(tc, self1, g1).
     and_then (HSMM_augment_data R self1 tc g1) (\<lambda>(augmented_data, self2, g2).
     and_then (HDPHMM_get_m R self2 augmented_data g2) (\<lambda>(m, self3, g3).
     and_then (resample_beta R self3 m g3) (\<lambda>(self4, g4).
     resample_A R self4 (to_float augmented_data) g4))))"

text \<open>The resample of the semi-Markov class as the specification words it in claim C2:
  the transitions are counted among the caller's sequences as given, with no collapse
  before the count. It differs from \<open>HSMM_resample\<close> in the argument of the count only,
  and is there to be compared with it.\<close>

definition HSMM_resample_claimed ::
  "'g numpy \<Rightarrow> transitions \<Rightarrow> int list list \<Rightarrow> 'g \<Rightarrow> error + transitions \<times> 'g" where
  "HSMM_resample_claimed R self stateseqs g =
     and_then (count_transitions R self stateseqs g) (\<lambda>(tc, self1, g1).
     and_then (HSMM_augment_data R self1 tc g1) (\<lambda>(augmented_data, self2, g2).
     and_then (HDPHMM_get_m R self2 augmented_data g2) (\<lambda>(m, self3, g3).
     and_then (resample_beta R self3 m g3) (\<lambda>(self4, g4).
     resample_A R self4 (to_float augmented_data) g4))))"

text \<open>\<^verbatim>\<open>ConcentrationResampling.resample\<close>.\<close>

definition Conc_resample :: "'g numpy \<Rightarrow> transitions \<Rightarrow> 'g \<Rightarrow> error + transitions \<times> 'g" where
  "Conc_resample R self g =
     and_then (getattr (trans_counts self)) (\<lambda>tc.
     and_then (getattr (beta self)) (\<lambda>b.
     and_then (dirgamma_resample R (alpha_obj self) tc (Some b) 10 g) (\<lambda>(ao, g1).
     let self1 = self\<lparr>alpha_obj := ao, alpha := concentration ao * real (state_dim self)\<rparr>
     in and_then (getattr (self_m self1)) (\<lambda>m.
        and_then (dirgamma_resample R (gamma_obj self1) m None 10 g1) (\<lambda>(go, g2).
        Inr (self1\<lparr>gamma_obj := go, gamma := concentration go * real (state_dim self1)\<rparr>, g2))))))"

text \<open>\<^verbatim>\<open>self.m-self.newm\<close> on two int32 matrices of one shape (\<open>newm\<close> is made as a copy
  of \<open>m\<close>).\<close>

definition msub :: "int32 matrix \<Rightarrow> int32 matrix \<Rightarrow> int32 matrix" where
  "msub a b = map (\<lambda>(r, r'). map (\<lambda>(x, y). x - y) (zip r r')) (zip a b)"

definition StickyConc_resample ::
  "('g numpy \<Rightarrow> transitions \<Rightarrow> int list list \<Rightarrow> 'g \<Rightarrow> error + transitions \<times> 'g)
     \<Rightarrow> 'g numpy \<Rightarrow> transitions \<Rightarrow> int list list \<Rightarrow> 'g \<Rightarrow> error + transitions \<times> 'g" where
  "StickyConc_resample super R self states_list g =
     and_then (super R self states_list g) (\<lambda>(self1, g1).
     and_then (Conc_resample R self1 g1) (\<lambda>(self2, g2).
     and_then (getattr (self_m self2)) (\<lambda>m.
     and_then (getattr (newm self2)) (\<lambda>nm.
     and_then (np_beta R (rho_a_0 self2 + real_of_int (sum_all (msub m nm)))
                 (rho_b_0 self2 + real_of_int (sum_all nm)) g2) (\<lambda>(r, g3).
     Inr (self2\<lparr>rho := r,
                kappa := r * concentration (alpha_obj self2) * real (state_dim self2)\<rparr>, g3))))))"

definition ConcCoupled_resample ::
  "('g numpy \<Rightarrow> transitions \<Rightarrow> int list list \<Rightarrow> 'g \<Rightarrow> error + transitions \<times> 'g)
     \<Rightarrow> 'g numpy \<Rightarrow> transitions \<Rightarrow> int list list \<Rightarrow> 'g \<Rightarrow> error + transitions \<times> 'g" where
  "ConcCoupled_resample super R self states_list g =
     and_then (super R self states_list g) (\<lambda>(self1, g1). Conc_resample R self1 g1)"

text \<open>
  The lookup of \<^verbatim>\<open>resample\<close>. \<open>ConcCoupled_resample\<close> is the body shared, word for
  word, by \<^verbatim>\<open>HDPHMMTransitionsConcResampling.resample\<close> and
  \<^verbatim>\<open>HDPHSMMTransitionsConcResampling.resample\<close>. For the transition classes the lookup
  stops at \<open>HDPHMMTransitions\<close> at the latest and never reaches
  \<open>ConcentrationResampling\<close>, whose \<^verbatim>\<open>resample\<close> takes no sequences.
\<close>

primrec resample_via ::
  "cls list \<Rightarrow> 'g numpy \<Rightarrow> transitions \<Rightarrow> int list list \<Rightarrow> 'g \<Rightarrow> error + transitions \<times> 'g" where
  "resample_via [] = (\<lambda>R self states_list g. Inl AttributeError)"
| "resample_via (c # rest) =
     (if c = StickyHDPHMMTransitionsConcResampling then StickyConc_resample (resample_via rest)
      else if c = HDPHMMTransitionsConcResampling \<or> c = HDPHSMMTransitionsConcResampling
      then ConcCoupled_resample (resample_via rest)
      else if c = HDPHSMMTransitions then HSMM_resample
      else if c = HDPHMMTransitions then HDPHMM_resample
      else if c = ConcentrationResampling then (\<lambda>R self states_list g. Conc_resample R self g)
      else resample_via rest)"

definition resample ::
  "'g numpy \<Rightarrow> transitions \<Rightarrow> int list list \<Rightarrow> 'g \<Rightarrow> error + transitions \<times> 'g" where
  "resample R self = resample_via (mro (klass self)) R self"

text \<open>\<^verbatim>\<open>resample\<close> on an instance of a semi-Markov class as the specification words it
  in claim C2: \<open>HSMM_resample_claimed\<close>, followed in the class with concentration
  resampling by the step that class adds.\<close>

definition semi_markov_resample_claimed ::
  "'g numpy \<Rightarrow> transitions \<Rightarrow> int list list \<Rightarrow> 'g \<Rightarrow> error + transitions \<times> 'g" where
  "semi_markov_resample_claimed R self stateseqs g =
     (if klass self = HDPHSMMTransitionsConcResampling
      then ConcCoupled_resample HSMM_resample_claimed R self stateseqs g
      else HSMM_resample_claimed R self stateseqs g)"

subsection \<open>Constructors\<close>

text \<open>
  A new instance has none of the optional attributes. \<open>HDPHMM_init\<close> is
  \<^verbatim>\<open>HDPHMMTransitions.__init__\<close>, which \<open>LTRHDPHMMTransitions\<close> inherits;
  \<open>Sticky_init\<close> is \<^verbatim>\<open>StickyHDPHMMTransitions.__init__\<close>, which
  \<open>StickyLTRHDPHMMTransitions\<close> inherits; \<open>HSMM_init\<close> is
  \<^verbatim>\<open>HDPHSMMTransitions.__init__\<close>. \<^verbatim>\<open>self.resample()\<close> is the call with the default
  argument, the empty list.
\<close>

definition new_object :: "cls \<Rightarrow> transitions" where
  "new_object c =
     \<lparr>klass = c, state_dim = 0, alpha = 0, gamma = 0, kappa = 0, rho = 0, rho_a_0 = 0,
      rho_b_0 = 0, alpha_obj = \<lparr>concentration = 0\<rparr>, gamma_obj = \<lparr>concentration = 0\<rparr>,
      beta = None, self_A = None, fullA = None, trans_counts = None, self_m = None,
      newm = None\<rparr>"

definition HDPHMM_init ::
  "'g numpy \<Rightarrow> transitions \<Rightarrow> nat \<Rightarrow> real \<Rightarrow> real \<Rightarrow> real list option \<Rightarrow> real matrix option \<Rightarrow> 'g
     \<Rightarrow> error + transitions \<times> 'g" where
  "HDPHMM_init R self state_dim' alpha' gamma' beta' A' g =
     (let self1 = self\<lparr>state_dim := state_dim', alpha := alpha', gamma := gamma'\<rparr>
      in if A' = None \<or> beta' = None then resample R self1 [] g
         else Inr (self1\<lparr>self_A := A', beta := beta'\<rparr>, g))"

definition Sticky_init ::
  "'g numpy \<Rightarrow> transitions \<Rightarrow> real \<Rightarrow> nat \<Rightarrow> real \<Rightarrow> real \<Rightarrow> real list option \<Rightarrow> real matrix option
     \<Rightarrow> 'g \<Rightarrow> error + transitions \<times> 'g" where
  "Sticky_init R self kappa' state_dim' alpha' gamma' beta' A' g =
     HDPHMM_init R (self\<lparr>kappa := kappa'\<rparr>) state_dim' alpha' gamma' beta' A' g"

definition HSMM_init ::
  "'g numpy \<Rightarrow> transitions \<Rightarrow> nat \<Rightarrow> real \<Rightarrow> real \<Rightarrow> real list option \<Rightarrow> real matrix option
     \<Rightarrow> real matrix option \<Rightarrow> 'g \<Rightarrow> error + transitions \<times> 'g" where
  "HSMM_init R self state_dim' alpha' gamma' beta' A' fullA' g =
     (let self1 = self\<lparr>alpha := alpha', gamma := gamma', state_dim := state_dim'\<rparr>
      in if A' = None \<or> fullA' = None \<or> beta' = None then resample R self1 [] g
         else Inr (self1\<lparr>self_A := A', beta := beta', fullA := fullA'\<rparr>, g))"


subsection \<open>A deterministic environment\<close>

text \<open>
  An environment for running the methods on concrete inputs: the generator state counts
  the calls, every sampler rejects parameters outside its domain (as numpy and scipy
  do, with ValueError) and otherwise returns a fixed point of its support: the mean for
  the uniform, Dirichlet, Beta and Gamma draws, 2 for a geometric draw with success
  parameter below 1, all the mass on the first category of positive probability for the
  multinomial draw. DirGamma's resample keeps its concentration.
\<close>

fun point_mass :: "int \<Rightarrow> real list \<Rightarrow> int list" where
  "point_mass n [] = []"
| "point_mass n (p # ps) = (if p > 0 then n # replicate (length ps) 0 else 0 # point_mass n ps)"

definition det_env :: "nat numpy" where
  "det_env =
     \<lparr>np_rand1 = (\<lambda>g. (1 / 2, Suc g)),
      np_geometric = (\<lambda>p n g.
        if p \<le> 0 \<or> p > 1 \<or> n < 0 then Inl ValueError
        else Inr (replicate (nat n) (if p = 1 then 1 else 2), Suc g)),
      np_multinomial = (\<lambda>n pvals g.
        if n < 0 \<or> list_ex (\<lambda>p. p < 0 \<or> p > 1) pvals then Inl ValueError
        else Inr (point_mass n pvals, Suc g)),
      np_binomial1 = (\<lambda>n p g.
        if n < 0 \<or> p < 0 \<or> p > 1 then Inl ValueError
        else Inr (if 1 \<le> 2 * p then n else 0, Suc g)),
      np_dirichlet = (\<lambda>ps g.
        if ps = [] \<or> list_ex (\<lambda>p. p \<le> 0) ps then Inl ValueError
        else Inr (map (\<lambda>p. p / sum_list ps) ps, Suc g)),
      np_beta = (\<lambda>a b g.
        if a \<le> 0 \<or> b \<le> 0 then Inl ValueError else Inr (a / (a + b), Suc g)),
      stats_gamma_rvs1 = (\<lambda>a g. if a \<le> 0 then Inl ValueError else Inr (a, Suc g)),
      dirgamma_resample = (\<lambda>dg counts weighted_cols niter g. Inr (dg, Suc g)),
      flat_slice_is_view = False,
      rvs_drops_unit_axes = True\<rparr>"

subsection \<open>Vocabulary of the statements\<close>

text \<open>A matrix of shape \<open>n\<close> by \<open>n\<close>; the adjacent pairs of a sequence, in order.\<close>

definition square :: "nat \<Rightarrow> 'a matrix \<Rightarrow> bool" where
  "square n a = (length a = n \<and> list_all (\<lambda>row. length row = n) a)"

definition adjacent :: "'a list \<Rightarrow> ('a \<times> 'a) list" where
  "adjacent xs = zip xs (tl xs)"

text \<open>The labels of every sequence are state indices \<open>0 \<le> s < L\<close>.\<close>

definition labels_in_range :: "nat \<Rightarrow> int list list \<Rightarrow> bool" where
  "labels_in_range L states_list = list_all (list_all (\<lambda>s. 0 \<le> s \<and> s < int L)) states_list"

text \<open>Some sequence has an adjacent pair \<open>i \<rightarrow> j\<close> with \<open>j < i\<close>.\<close>

definition has_backward_transition :: "int list list \<Rightarrow> bool" where
  "has_backward_transition states_list =
     list_ex (\<lambda>states. list_ex (\<lambda>(i, j). j < i) (adjacent states)) states_list"

text \<open>
  The number of successes among \<open>n\<close> Bernoulli trials, where trial \<open>k\<close> (counted from 0)
  succeeds when the \<open>k\<close>-th of \<open>n\<close> uniform draws, taken from the generator state \<open>g0\<close>,
  is below \<open>ab / (k + ab)\<close>.
\<close>

definition crp_successes :: "'g numpy \<Rightarrow> real \<Rightarrow> nat \<Rightarrow> 'g \<Rightarrow> nat" where
  "crp_successes R ab n g0 =
     length (filter (\<lambda>k. fst (rand R n g0) ! k < ab / (real k + ab)) [0..<n])"

text \<open>
  The loop body of the left-to-right counting step as claim C3 words it, for comparison
  with \<open>LTR_row\<close>: the geometric total is split across the forward columns \<open>i, i+1, ...\<close>
  of row \<open>i\<close> with probabilities proportional to the upper-triangular part of row \<open>i\<close> of
  \<open>fullA\<close>.
\<close>

definition LTR_row_claimed ::
  "'g numpy \<Rightarrow> real matrix \<Rightarrow> int list \<Rightarrow> real list \<Rightarrow> int32 matrix \<times> 'g \<Rightarrow> nat
     \<Rightarrow> error + int32 matrix \<times> 'g" where
  "LTR_row_claimed R fa totalfrom totalweight tg i =
     (case tg of (tc, g) \<Rightarrow>
      and_then (if i < length totalweight then Inr (totalweight ! i) else Inl IndexError) (\<lambda>w.
      and_then (np_geometric R w (totalfrom ! i) g) (\<lambda>(draws, g1).
      let tot = sum_list draws; part = drop i (fa ! i)
      in and_then (np_divide part (replicate (length part) (sum_list part))) (\<lambda>pvals.
         and_then (np_multinomial R tot pvals g1) (\<lambda>(split, g2).
         if length split = length part
         then Inr (tc[i := take i (tc ! i) @ map word_of_int split], g2)
         else Inl ValueError)))))"

text \<open>
  The samplers return values in the support of their distributions: a Dirichlet draw is
  a point of the simplex of the parameter's dimension, a Gamma draw is not negative.
\<close>

definition stochastic_row :: "real list \<Rightarrow> bool" where
  "stochastic_row row = (sum_list row = 1 \<and> list_all (\<lambda>x. 0 \<le> x) row)"

definition sampler_contract :: "'g numpy \<Rightarrow> bool" where
  "sampler_contract R =
     ((\<forall>ps g b g'. np_dirichlet R ps g = Inr (b, g') \<longrightarrow> length b = length ps \<and> stochastic_row b) \<and>
      (\<forall>a g x g'. stats_gamma_rvs1 R a g = Inr (x, g') \<longrightarrow> 0 \<le> x))"

text \<open>
  The state that claim C6 describes: \<open>beta\<close> is a point of the simplex of dimension \<open>L\<close>;
  \<open>A\<close> is \<open>L\<close> by \<open>L\<close> with every row summing to 1 and no negative entry, and with a zero
  diagonal in the semi-Markov classes; \<open>fullA\<close>, in the classes that have it, is \<open>L\<close> by \<open>L\<close>.
\<close>

definition semi_markov :: "cls \<Rightarrow> bool" where
  "semi_markov c = (c = HDPHSMMTransitions \<or> c = HDPHSMMTransitionsConcResampling)"

definition left_to_right :: "cls \<Rightarrow> bool" where
  "left_to_right c = (c = LTRHDPHMMTransitions \<or> c = StickyLTRHDPHMMTransitions)"

definition resampled_state :: "transitions \<Rightarrow> bool" where
  "resampled_state s =
     ((case beta s of None \<Rightarrow> False
       | Some b \<Rightarrow> length b = state_dim s \<and> stochastic_row b) \<and>
      (case self_A s of None \<Rightarrow> False
       | Some a \<Rightarrow> square (state_dim s) a \<and> list_all stochastic_row a \<and>
           (semi_markov (klass s) \<longrightarrow> list_all (\<lambda>i. a ! i ! i = 0) [0..<state_dim s])) \<and>
      (semi_markov (klass s) \<or> left_to_right (klass s) \<longrightarrow>
         (case fullA s of None \<Rightarrow> False | Some fa \<Rightarrow> square (state_dim s) fa)))"

text \<open>Successive \<^verbatim>\<open>resample\<close> calls on one instance, one per element of the list.\<close>

fun resamples ::
  "'g numpy \<Rightarrow> transitions \<Rightarrow> int list list list \<Rightarrow> 'g \<Rightarrow> error + transitions \<times> 'g" where
  "resamples R self [] g = Inr (self, g)"
| "resamples R self (states_list # rest) g =
     and_then (resample R self states_list g) (\<lambda>(self1, g1). resamples R self1 rest g1)"

subsection \<open>Example instances\<close>

text \<open>Concrete instances and inputs on which the theorems below are run.\<close>

definition self_ex :: transitions where
  "self_ex = (new_object HDPHMMTransitions)\<lparr>state_dim := 2, alpha := 1, gamma := 1,
      beta := Some [1 / 2, 1 / 2], self_A := Some [[1 / 2, 1 / 2], [1 / 2, 1 / 2]]\<rparr>"

definition m_ex :: "int32 matrix" where
  "m_ex = [[1, 0], [2, 4]]"

definition ltr_ex :: transitions where
  "ltr_ex = self_ex\<lparr>klass := LTRHDPHMMTransitions, fullA := Some [[1 / 2, 1 / 2], [1 / 4, 3 / 4]]\<rparr>"

definition ltr_new_ex :: transitions where
  "ltr_new_ex = self_ex\<lparr>klass := LTRHDPHMMTransitions\<rparr>"

definition tc_ex :: "int32 matrix" where
  "tc_ex = [[0, 1], [2, 0]]"

definition hsmm_ex :: transitions where
  "hsmm_ex = self_ex\<lparr>klass := HDPHSMMTransitions, fullA := Some [[1 / 2, 1 / 2], [1 / 4, 3 / 4]]\<rparr>"

definition tc_aug_ex :: "int32 matrix" where
  "tc_aug_ex = [[0, 1], [3, 0]]"

definition hsmm_one_ex :: transitions where
  "hsmm_one_ex = self_ex\<lparr>klass := HDPHSMMTransitions, fullA := Some [[1, 0], [1 / 2, 1 / 2]]\<rparr>"

definition sticky_ltr_ex :: transitions where
  "sticky_ltr_ex = self_ex\<lparr>klass := StickyLTRHDPHMMTransitions, kappa := 1,
      fullA := Some [[1 / 2, 1 / 2], [1 / 4, 3 / 4]]\<rparr>"

definition sticky_ex :: transitions where
  "sticky_ex = self_ex\<lparr>klass := StickyHDPHMMTransitions, kappa := 1\<rparr>"

definition sticky_conc_ex :: transitions where
  "sticky_conc_ex = self_ex\<lparr>klass := StickyHDPHMMTransitionsConcResampling, kappa := 1 / 2,
      alpha := 1 / 2, rho := 1 / 2, rho_a_0 := 1, rho_b_0 := 1,
      alpha_obj := \<lparr>concentration = 1 / 2\<rparr>, gamma_obj := \<lparr>concentration = 1 / 2\<rparr>\<rparr>"

text \<open>\<open>2^32\<close> sequences, each the one backward step \<open>1 \<rightarrow> 0\<close>.\<close>

definition wrap_input :: "int list list" where
  "wrap_input = replicate (2 ^ 32) [1, 0]"

section \<open>Properties\<close>

subsection \<open>Sequencing and arrays\<close>

lemma and_then_Inr [simp]: "and_then (Inr x) f = f x"
  by (simp add: and_then_def)

lemma and_then_Inl [simp]: "and_then (Inl e) f = Inl e"
  by (simp add: and_then_def)

lemma and_then_eq_Inr: "and_then r f = Inr y \<longleftrightarrow> (\<exists>x. r = Inr x \<and> f x = Inr y)"
  by (cases r) auto

lemma sum_axis0_nonempty:
  "a \<noteq> [] \<Longrightarrow>
     sum_axis0 a = map (\<lambda>j. sum_list (map (\<lambda>row. sint (row ! j)) a)) [0..<length (hd a)]"
  by (cases a) (simp_all add: sum_axis0_def)

lemma sum_axis0_nth:
  assumes "length a = n" "\<forall>row \<in> set a. length row = n" "0 < n"
  shows "sum_axis0 a = map (\<lambda>j. \<Sum>i<n. sint (a ! i ! j)) [0..<n]"
proof -
  have ne: "a \<noteq> []" using assms by auto
  then have lr: "length (hd a) = n" using assms by (cases a) auto
  have "sum_list (map (\<lambda>row. sint (row ! j)) a) = (\<Sum>i<n. sint (a ! i ! j))" for j
    using assms(1) by (simp add: sum_list_sum_nth atLeast0LessThan)
  then show ?thesis by (simp add: sum_axis0_nonempty [OF ne] lr)
qed

subsection \<open>Counting transitions\<close>


lemma foldE_append: "foldE f (xs @ ys) s = and_then (foldE f xs s) (foldE f ys)"
  by (induction xs arbitrary: s) (auto simp: and_then_def split: sum.splits)

lemma foldE_map: "foldE f (map h xs) s = foldE (\<lambda>s x. f s (h x)) xs s"
  by (induction xs arbitrary: s) (auto simp: and_then_def split: sum.splits)

lemma adjacent_eq_map:
  "2 \<le> length xs \<Longrightarrow> map (\<lambda>idx. (xs ! idx, xs ! (idx + 1))) [0..<length xs - 1] = adjacent xs"
  by (auto simp: adjacent_def list_eq_iff_nth_eq nth_tl)

lemma adjacent_short: "length xs < 2 \<Longrightarrow> adjacent xs = []"
  by (cases xs) (auto simp: adjacent_def)

lemma count_sequence_adjacent: "count_sequence tc states = foldE incr_cell (adjacent states) tc"
proof (cases "2 \<le> length states")
  case True
  then show ?thesis
    by (simp add: count_sequence_def adjacent_eq_map [symmetric] foldE_map)
next
  case False
  then show ?thesis
    by (simp add: count_sequence_def adjacent_short)
qed

lemma foldE_adjacent:
  "foldE (\<lambda>tc s. foldE incr_cell (adjacent s) tc) sl tc = foldE incr_cell (concat (map adjacent sl)) tc"
proof (induction sl arbitrary: tc)
  case Nil
  then show ?case by simp
next
  case (Cons s sl)
  show ?case
    by (cases "foldE incr_cell (adjacent s) tc") (simp_all add: foldE_append Cons.IH)
qed

lemma foldE_count_sequence:
  "foldE count_sequence sl tc = foldE incr_cell (concat (map adjacent sl)) tc"
proof -
  have eq: "count_sequence = (\<lambda>tc s. foldE incr_cell (adjacent s) tc)"
    by (intro ext) (rule count_sequence_adjacent)
  show ?thesis unfolding eq by (rule foldE_adjacent)
qed

lemma square_nth: "square n a \<Longrightarrow> i < n \<Longrightarrow> length (a ! i) = n"
  by (auto simp: square_def list_all_length)

lemma square_length: "square n a \<Longrightarrow> length a = n"
  by (simp add: square_def)

lemma square_update:
  "square n a \<Longrightarrow> square n (a[i := (a ! i)[j := v]])"
  by (cases "i < length a") (auto simp: square_def list_all_length nth_list_update)

lemma square_zeros: "square n (zeros n)"
  by (simp add: square_def zeros_def list_all_length)

lemma nth_update2:
  "i' < length a \<Longrightarrow> j' < length (a ! i') \<Longrightarrow>
   a[i := (a ! i)[j := v]] ! i' ! j' = (if i' = i \<and> j' = j then v else a ! i' ! j')"
  by (cases "i < length a") (auto simp: nth_list_update)

lemma incr_cell_in_range:
  assumes "square n tc" "0 \<le> a" "a < int n" "0 \<le> b" "b < int n"
  shows "incr_cell tc (a, b) =
           Inr (tc[nat a := (tc ! nat a)[nat b := tc ! nat a ! nat b + 1]])"
  using assms by (simp add: incr_cell_def np_index_def square_length square_nth)

lemma foldE_incr_cell:
  assumes "square n tc" "list_all (\<lambda>(a, b). 0 \<le> a \<and> a < int n \<and> 0 \<le> b \<and> b < int n) P"
  shows "\<exists>tc'. foldE incr_cell P tc = Inr tc' \<and> square n tc' \<and>
           (\<forall>i<n. \<forall>j<n. tc' ! i ! j = tc ! i ! j + of_nat (count_list P (int i, int j)))"
  using assms
proof (induction P arbitrary: tc)
  case Nil
  then show ?case by simp
next
  case (Cons p P)
  obtain a b where p: "p = (a, b)" by (cases p)
  from Cons.prems p have r: "0 \<le> a" "a < int n" "0 \<le> b" "b < int n" and rest: "list_all (\<lambda>(a, b). 0 \<le> a \<and> a < int n \<and> 0 \<le> b \<and> b < int n) P"
    by auto
  let ?tc1 = "tc[nat a := (tc ! nat a)[nat b := tc ! nat a ! nat b + 1]]"
  have step: "incr_cell tc (a, b) = Inr ?tc1"
    using incr_cell_in_range [OF Cons.prems(1) r] .
  have sq1: "square n ?tc1" using Cons.prems(1) by (rule square_update)
  from Cons.IH [OF sq1 rest] obtain tc' where
    f: "foldE incr_cell P ?tc1 = Inr tc'" and sq: "square n tc'"
    and v: "\<forall>i<n. \<forall>j<n. tc' ! i ! j = ?tc1 ! i ! j + of_nat (count_list P (int i, int j))"
    by blast
  have "tc' ! i ! j = tc ! i ! j + of_nat (count_list (p # P) (int i, int j))"
    if "i < n" "j < n" for i j
  proof -
    have "?tc1 ! i ! j = (if i = nat a \<and> j = nat b then tc ! nat a ! nat b + 1 else tc ! i ! j)"
      using that Cons.prems(1) by (subst nth_update2) (auto simp: square_length square_nth)
    moreover have "(int i, int j) = (a, b) \<longleftrightarrow> i = nat a \<and> j = nat b"
      using r by auto
    ultimately show ?thesis using v that by (auto simp: p)
  qed
  then show ?case using f sq step by (simp add: p)
qed


lemma adjacent_subset: "(a, b) \<in> set (adjacent xs) \<Longrightarrow> a \<in> set xs \<and> b \<in> set xs"
  unfolding adjacent_def by (cases xs) (auto dest: set_zip_leftD set_zip_rightD)

lemma length_adjacent: "length (adjacent xs) = length xs - 1"
  by (simp add: adjacent_def)

lemma pairs_in_range:
  assumes "labels_in_range L sl"
  shows "list_all (\<lambda>(a, b). 0 \<le> a \<and> a < int L \<and> 0 \<le> b \<and> b < int L) (concat (map adjacent sl))"
  using assms unfolding labels_in_range_def list_all_iff
  by (auto dest!: adjacent_subset)

lemma zeros_nth: "i < n \<Longrightarrow> j < n \<Longrightarrow> zeros n ! i ! j = 0"
  by (simp add: zeros_def)

lemma base_count:
  assumes "labels_in_range (state_dim self) sl"
  shows "\<exists>tc. HDPHMM_count_transitions self sl = Inr (tc, self\<lparr>trans_counts := Some tc\<rparr>) \<and>
           square (state_dim self) tc \<and>
           (\<forall>i < state_dim self. \<forall>j < state_dim self.
              tc ! i ! j = of_nat (count_list (concat (map adjacent sl)) (int i, int j)))"
proof -
  from foldE_incr_cell [OF square_zeros pairs_in_range [OF assms]]
  obtain tc where "foldE incr_cell (concat (map adjacent sl)) (zeros (state_dim self)) = Inr tc"
    "square (state_dim self) tc"
    "\<forall>i < state_dim self. \<forall>j < state_dim self.
       tc ! i ! j = zeros (state_dim self) ! i ! j + of_nat (count_list (concat (map adjacent sl)) (int i, int j))"
    by blast
  then show ?thesis
    by (simp add: HDPHMM_count_transitions_def foldE_count_sequence zeros_nth)
qed

lemma all_zero_tril_1:
  "all_zero (tril_1 a) \<longleftrightarrow> (\<forall>i<length a. \<forall>j<length (a ! i). j < i \<longrightarrow> a ! i ! j = 0)"
  by (auto simp: all_zero_def tril_1_def list_all_length nth_enumerate_eq)

lemma length_concat_adjacent:
  "length (concat (map adjacent sl)) = sum_list (map (\<lambda>states. length states - 1) sl)"
  by (simp add: length_concat o_def length_adjacent)

lemma of_nat_32_nonzero:
  assumes "0 < n" "n < 2 ^ 32"
  shows "(of_nat n :: 32 word) \<noteq> 0"
proof
  assume "(of_nat n :: 32 word) = 0"
  then have "unat (of_nat n :: 32 word) = 0" by simp
  then show False using assms by (simp add: unat_of_nat)
qed

lemma backward_pair:
  assumes "has_backward_transition sl" "labels_in_range L sl"
  obtains i j where "j < i" "i < L" "(int i, int j) \<in> set (concat (map adjacent sl))"
proof -
  from assms(1) obtain states a b where s: "states \<in> set sl" "(a, b) \<in> set (adjacent states)" "b < a"
    by (auto simp: has_backward_transition_def list_ex_iff)
  then have "a \<in> set states" "b \<in> set states" by (auto dest: adjacent_subset)
  with assms(2) s(1) have r: "0 \<le> a" "a < int L" "0 \<le> b" "b < int L"
    by (auto simp: labels_in_range_def list_all_iff)
  show ?thesis
  proof (rule that [of "nat b" "nat a"])
    show "nat b < nat a" using r s(3) by simp
    show "nat a < L" using r by simp
    show "(int (nat a), int (nat b)) \<in> set (concat (map adjacent sl))"
      using r s by auto
  qed
qed

lemma ltr_count_backward:
  assumes "labels_in_range (state_dim self) sl"
    and "sum_list (map (\<lambda>states. length states - 1) sl) < 2 ^ 32"
    and "has_backward_transition sl"
  shows "LTR_count_transitions
           (\<lambda>R self states_list g.
              and_then (HDPHMM_count_transitions self states_list) (\<lambda>(tc, self1). Inr (tc, self1, g)))
           R self sl g = Inl AssertionError"
proof -
  let ?P = "concat (map adjacent sl)"
  from base_count [OF assms(1)] obtain tc where
    c: "HDPHMM_count_transitions self sl = Inr (tc, self\<lparr>trans_counts := Some tc\<rparr>)"
    and sq: "square (state_dim self) tc"
    and v: "\<forall>i < state_dim self. \<forall>j < state_dim self. tc ! i ! j = of_nat (count_list ?P (int i, int j))"
    by blast
  from backward_pair [OF assms(3) assms(1)] obtain i j where
    ij: "j < i" "i < state_dim self" "(int i, int j) \<in> set ?P" by blast
  have "0 < count_list ?P (int i, int j)"
    using ij(3) by (simp add: count_list_0_iff zero_less_iff_neq_zero)
  moreover have "count_list ?P (int i, int j) \<le> length ?P"
    by (rule count_le_length)
  ultimately have "(of_nat (count_list ?P (int i, int j)) :: 32 word) \<noteq> 0"
    using assms(2) by (intro of_nat_32_nonzero) (simp_all add: length_concat_adjacent)
  then have "tc ! i ! j \<noteq> 0" using v ij by simp
  moreover have "i < length tc" "j < length (tc ! i)"
    using ij sq by (simp_all add: square_length square_nth)
  ultimately have "\<not> all_zero (tril_1 tc)"
    unfolding all_zero_tril_1 using ij(1) by blast
  then show ?thesis by (simp add: LTR_count_transitions_def c)
qed

lemma no_backward_count:
  assumes "\<not> has_backward_transition sl" "j < i"
  shows "count_list (concat (map adjacent sl)) (int i, int j) = 0"
proof -
  have "(int i, int j) \<notin> set (concat (map adjacent sl))"
    using assms by (force simp: has_backward_transition_def list_ex_iff)
  then show ?thesis by (simp add: count_list_0_iff)
qed

lemma ltr_count_no_fullA:
  assumes "labels_in_range (state_dim self) sl" "\<not> has_backward_transition sl" "fullA self = None"
  shows "LTR_count_transitions
           (\<lambda>R self states_list g.
              and_then (HDPHMM_count_transitions self states_list) (\<lambda>(tc, self1). Inr (tc, self1, g)))
           R self sl g = Inl AttributeError"
proof -
  let ?P = "concat (map adjacent sl)"
  from base_count [OF assms(1)] obtain tc where
    c: "HDPHMM_count_transitions self sl = Inr (tc, self\<lparr>trans_counts := Some tc\<rparr>)"
    and sq: "square (state_dim self) tc"
    and v: "\<forall>i < state_dim self. \<forall>j < state_dim self. tc ! i ! j = of_nat (count_list ?P (int i, int j))"
    by blast
  have "tc ! i ! j = 0" if "i < length tc" "j < length (tc ! i)" "j < i" for i j
    using that v sq no_backward_count [OF assms(2) that(3)]
    by (simp add: square_length square_nth)
  then have "all_zero (tril_1 tc)"
    unfolding all_zero_tril_1 by blast
  then show ?thesis by (simp add: LTR_count_transitions_def c assms(3) getattr_def)
qed

lemma ltr_resample_no_fullA:
  assumes "klass self = LTRHDPHMMTransitions \<or> klass self = StickyLTRHDPHMMTransitions"
    and "fullA self = None" "labels_in_range (state_dim self) sl" "\<not> has_backward_transition sl"
  shows "resample R self sl g = Inl AttributeError"
proof -
  have c: "count_transitions R self sl g = Inl AttributeError"
    using assms(1) ltr_count_no_fullA [OF assms(3,4,2), of R g]
    by (auto simp: count_transitions_def)
  have "resample R self sl g = HDPHMM_resample R self sl g"
    using assms(1) by (auto simp: resample_def)
  then show ?thesis using c by (simp add: HDPHMM_resample_def)
qed

lemma empty_input_ok: "labels_in_range L []" "\<not> has_backward_transition []"
  by (simp_all add: labels_in_range_def has_backward_transition_def)


subsection \<open>The table counts\<close>


lemma map_enumerate:
  "map (\<lambda>(i, x). f i x) (enumerate 0 xs) = map (\<lambda>i. f i (xs ! i)) [0..<length xs]"
  by (rule nth_equalityI) (simp_all add: nth_enumerate_eq)

lemma ndenumerate_alt:
  "ndenumerate a =
     concat (map (\<lambda>i. map (\<lambda>j. ((i, j), a ! i ! j)) [0..<length (a ! i)]) [0..<length a])"
  by (simp add: ndenumerate_def map_enumerate)

lemma ndenumerate_set:
  "((i, j), v) \<in> set (ndenumerate a) \<longleftrightarrow> i < length a \<and> j < length (a ! i) \<and> v = a ! i ! j"
  by (fastforce simp: ndenumerate_alt)

lemma distinct_concat_rows:
  "distinct (map fst (concat (map (\<lambda>i. map (\<lambda>j. ((i, j), f i j)) [0..<c i]) [0..<n])))"
proof (induction n)
  case 0
  then show ?case by simp
next
  case (Suc n)
  have "distinct (map fst (map (\<lambda>j. ((n, j), f n j)) [0..<c n]))"
    by (simp add: distinct_map inj_on_def o_def)
  with Suc show ?case by (auto simp: o_def)
qed

lemma ndenumerate_distinct: "distinct (map fst (ndenumerate a))"
  unfolding ndenumerate_alt by (rule distinct_concat_rows)

lemma length_rand: "length (fst (rand R n g)) = n"
proof (induction n arbitrary: g)
  case 0
  then show ?case by simp
next
  case (Suc n)
  obtain u g1 where a: "np_rand1 R g = (u, g1)" by (cases "np_rand1 R g")
  obtain us g2 where b: "rand R n g1 = (us, g2)" by (cases "rand R n g1")
  from Suc [of g1] b have "length us = n" by simp
  then show ?case by (simp add: a b)
qed

lemma thresholds_Inr:
  assumes "thresholds ab n = Inr thr"
  shows "length thr = n \<and> (\<forall>k<n. thr ! k = ab / (real k + ab))"
  using assms by (auto simp: thresholds_def np_divide_def split: if_splits)

lemma successes_filter:
  assumes "length us = n" "length thr = n"
  shows "successes us thr = length (filter (\<lambda>k. us ! k < thr ! k) [0..<n])"
proof -
  have "zip us thr = map (\<lambda>k. (us ! k, thr ! k)) [0..<n]"
    using assms by (simp add: list_eq_iff_nth_eq)
  then show ?thesis by (simp add: successes_def filter_map o_def)
qed

lemma successes_crp:
  assumes "thresholds ab n = Inr thr"
  shows "successes (fst (rand R n g0)) thr = crp_successes R ab n g0"
proof -
  from thresholds_Inr [OF assms] have l: "length thr = n" and v: "\<forall>k<n. thr ! k = ab / (real k + ab)"
    by auto
  have "filter (\<lambda>k. fst (rand R n g0) ! k < thr ! k) [0..<n]
        = filter (\<lambda>k. fst (rand R n g0) ! k < ab / (real k + ab)) [0..<n]"
    using v by (intro filter_cong) auto
  then show ?thesis
    by (simp add: successes_filter [OF length_rand l] crp_successes_def)
qed

lemma crp_successes_le: "crp_successes R ab n g0 \<le> n"
  unfolding crp_successes_def by (rule order_trans [OF length_filter_le]) simp

lemma get_m_cell_Inr:
  assumes "get_m_cell R self (m, g) ((i, j), val) = Inr (m', g')"
  shows "0 \<le> sint val \<and> i < length m \<and> j < length (m ! i) \<and>
         (\<exists>b. beta self = Some b \<and> j < length b \<and>
            m' = m[i := (m ! i)[j := of_nat (crp_successes R (alpha self * b ! j) (nat (sint val)) g)]])"
proof -
  from assms have nn: "0 \<le> sint val"
    by (auto simp: get_m_cell_def np_random_rand_def split: if_splits)
  from assms nn obtain b where b: "beta self = Some b"
    by (cases "beta self") (auto simp: get_m_cell_def np_random_rand_def getattr_def split: prod.splits)
  from assms nn b have j: "j < length b"
    by (auto simp: get_m_cell_def np_random_rand_def getattr_def split: prod.splits if_splits)
  from assms nn b j obtain thr where t: "thresholds (alpha self * b ! j) (nat (sint val)) = Inr thr"
    by (cases "thresholds (alpha self * b ! j) (nat (sint val))")
       (auto simp: get_m_cell_def np_random_rand_def getattr_def split: prod.splits)
  from assms nn b j t have r: "i < length m \<and> j < length (m ! i)" and
    m': "m' = m[i := (m ! i)[j := of_nat (successes (fst (rand R (nat (sint val)) g)) thr)]]"
    by (auto simp: get_m_cell_def np_random_rand_def getattr_def split: prod.splits if_splits)
  show ?thesis using nn b j r m' by (simp add: successes_crp [OF t])
qed


lemma nth_update2_other:
  "(i', j') \<noteq> (i, j) \<Longrightarrow> i < length a \<Longrightarrow> a[i := (a ! i)[j := v]] ! i' ! j' = a ! i' ! j'"
  by (cases "i' = i") auto

lemma foldE_get_m:
  assumes "foldE (get_m_cell R self) cells (m0, g0) = Inr (m, g')" "distinct (map fst cells)"
  shows "length m = length m0 \<and> (\<forall>i<length m0. length (m ! i) = length (m0 ! i)) \<and>
         (\<forall>i j val. ((i, j), val) \<in> set cells \<longrightarrow>
            0 \<le> sint val \<and> i < length m0 \<and> j < length (m0 ! i) \<and>
            (\<exists>b g1. beta self = Some b \<and> j < length b \<and>
               m ! i ! j = of_nat (crp_successes R (alpha self * b ! j) (nat (sint val)) g1))) \<and>
         (\<forall>i j. (i, j) \<notin> fst ` set cells \<longrightarrow> m ! i ! j = m0 ! i ! j)"
  using assms
proof (induction cells arbitrary: m0 g0)
  case Nil
  then show ?case by simp
next
  case (Cons c cs)
  obtain i j val where c: "c = ((i, j), val)" by (cases c) auto
  from Cons.prems(1) obtain m1 g1 where
    s1: "get_m_cell R self (m0, g0) ((i, j), val) = Inr (m1, g1)"
    and rest: "foldE (get_m_cell R self) cs (m1, g1) = Inr (m, g')"
    by (auto simp: c and_then_eq_Inr)
  from get_m_cell_Inr [OF s1] obtain b where
    nn: "0 \<le> sint val" and i: "i < length m0" and j: "j < length (m0 ! i)"
    and b: "beta self = Some b" "j < length b"
    and m1: "m1 = m0[i := (m0 ! i)[j := of_nat (crp_successes R (alpha self * b ! j) (nat (sint val)) g0)]]"
    by blast
  from Cons.prems(2) have d: "distinct (map fst cs)" and fresh: "(i, j) \<notin> fst ` set cs"
    by (auto simp: c)
  note IH = Cons.IH [OF rest d]
  have len1: "length m1 = length m0" by (simp add: m1)
  have row1: "length (m1 ! i') = length (m0 ! i')" if "i' < length m0" for i'
    using that by (cases "i' = i") (simp_all add: m1)
  have A: "length m = length m0" using IH len1 by simp
  have B: "\<forall>i'<length m0. length (m ! i') = length (m0 ! i')"
    using IH len1 row1 by simp
  have here: "m ! i ! j = of_nat (crp_successes R (alpha self * b ! j) (nat (sint val)) g0)"
  proof -
    have "m ! i ! j = m1 ! i ! j" using IH fresh by blast
    also have "\<dots> = of_nat (crp_successes R (alpha self * b ! j) (nat (sint val)) g0)"
      using i j by (simp add: m1)
    finally show ?thesis .
  qed
  have C: "0 \<le> sint v \<and> i' < length m0 \<and> j' < length (m0 ! i') \<and>
            (\<exists>b g1. beta self = Some b \<and> j' < length b \<and>
               m ! i' ! j' = of_nat (crp_successes R (alpha self * b ! j') (nat (sint v)) g1))"
    if "((i', j'), v) \<in> set (c # cs)" for i' j' v
  proof (cases "((i', j'), v) = c")
    case True
    then show ?thesis using nn i j b here c by auto
  next
    case False
    with that have "((i', j'), v) \<in> set cs" by simp
    with IH have "0 \<le> sint v \<and> i' < length m1 \<and> j' < length (m1 ! i') \<and>
            (\<exists>b g1. beta self = Some b \<and> j' < length b \<and>
               m ! i' ! j' = of_nat (crp_successes R (alpha self * b ! j') (nat (sint v)) g1))"
      by blast
    then show ?thesis using len1 row1 by auto
  qed
  have D: "m ! i' ! j' = m0 ! i' ! j'" if "(i', j') \<notin> fst ` set (c # cs)" for i' j'
  proof -
    from that have ne: "(i', j') \<noteq> (i, j)" and "(i', j') \<notin> fst ` set cs"
      by (auto simp: c)
    then have "m ! i' ! j' = m1 ! i' ! j'" using IH by blast
    also have "\<dots> = m0 ! i' ! j'" unfolding m1 using ne i by (rule nth_update2_other)
    finally show ?thesis .
  qed
  show ?case using A B C D by blast
qed

lemma sint_of_int_32:
  assumes "- (2 ^ 31) \<le> k" "k < 2 ^ 31"
  shows "sint (word_of_int k :: 32 word) = k"
  using assms by (simp add: signed_of_int signed_take_bit_int_eq_self)

lemma sint_of_nat_32:
  assumes "c \<le> nat (sint (v :: 32 word))"
  shows "sint (of_nat c :: 32 word) = int c"
proof -
  have "sint v < 2 ^ 31" using sint_lt [of v] by simp
  with assms have "int c < 2 ^ 31" by (cases "0 \<le> sint v") (auto simp: le_nat_iff)
  then have "sint (word_of_int (int c) :: 32 word) = int c"
    by (intro sint_of_int_32) simp_all
  then show ?thesis by simp
qed

lemma zeros_length: "length (zeros n) = n" "i < n \<Longrightarrow> length (zeros n ! i) = n"
  by (simp_all add: zeros_def)


subsection \<open>Run-length collapse\<close>


lemma rle_lengths: "length (fst (rle xs)) = length (snd (rle xs)) \<and> (fst (rle xs) = [] \<longleftrightarrow> xs = [])"
  by (induction xs) (auto split: prod.splits list.splits)

lemma fst_rle: "fst (rle xs) = remdups_adj xs"
proof (induction xs)
  case Nil
  then show ?case by simp
next
  case (Cons x xs)
  obtain ys ns where r: "rle xs = (ys, ns)" by (cases "rle xs")
  with rle_lengths [of xs] have l: "length ys = length ns" by simp
  from Cons r have ys: "ys = remdups_adj xs" by simp
  show ?case
  proof (cases ys)
    case Nil
    with l r ys show ?thesis by (simp add: remdups_adj_Cons)
  next
    case (Cons y ys')
    with l obtain n ns' where "ns = n # ns'" by (cases ns) auto
    with Cons r ys show ?thesis by (simp add: remdups_adj_Cons split: list.splits)
  qed
qed

lemma states_noreps_remdups: "states_noreps stateseqs = map remdups_adj stateseqs"
  by (simp add: states_noreps_def fst_rle o_def)


subsection \<open>The semi-Markov augmentation\<close>


lemma mapS_Inr:
  assumes "mapS f xs g = Inr (ys, g')"
  shows "length ys = length xs \<and> (\<forall>k<length xs. \<exists>g0 g1. f (xs ! k) g0 = Inr (ys ! k, g1))"
  using assms
proof (induction xs arbitrary: g ys)
  case Nil
  then show ?case by simp
next
  case (Cons x xs)
  from Cons.prems obtain y g1 ys' where
    a: "f x g = Inr (y, g1)" and b: "mapS f xs g1 = Inr (ys', g')" and c: "ys = y # ys'"
    by (auto simp: and_then_eq_Inr)
  from Cons.IH [OF b] have l: "length ys' = length xs"
    and e: "\<forall>k<length xs. \<exists>g0 g1. f (xs ! k) g0 = Inr (ys' ! k, g1)" by auto
  have "\<exists>g0 g1. f ((x # xs) ! k) g0 = Inr (ys ! k, g1)" if "k < length (x # xs)" for k
    using that a e c by (cases k) auto
  then show ?case using l c by simp
qed

lemma self_transition_Inr:
  assumes "self_transition R (p, n) g0 = Inr (y, g1)"
  shows "(0 < n \<longrightarrow> (\<exists>draws. np_geometric R (1 - p) n g0 = Inr (draws, g1) \<and> y = sum_list draws)) \<and>
         (n \<le> 0 \<longrightarrow> y = 0)"
  using assms by (auto simp: self_transition_def and_then_eq_Inr split: if_splits)

lemma diagonal_square: "square n a \<Longrightarrow> diagonal a = map (\<lambda>i. a ! i ! i) [0..<n]"
  by (cases a) (auto simp: diagonal_def square_def)

lemma iadd_diag_square:
  assumes "square n tc" "length st = n" "iadd_diag tc st = Inr tc'" "i < n" "j < n"
  shows "tc' ! i ! j = tc ! i ! j + word_of_int (if i = j then st ! i else 0)"
proof -
  have l: "length tc = n" "length (tc ! i) = n"
    using assms by (simp_all add: square_length square_nth)
  have tc': "tc' = map (\<lambda>(i, row).
                map (\<lambda>(j, w). w + word_of_int (if n = 1 then st ! 0 else if i = j then st ! i else 0))
                  (enumerate 0 row)) (enumerate 0 tc)"
    using assms(2,3) by (auto simp: iadd_diag_def Let_def split: if_splits)
  have "tc' ! i ! j = tc ! i ! j + word_of_int (if n = 1 then st ! 0 else if i = j then st ! i else 0)"
    unfolding tc' using assms(4,5) l by (simp add: nth_enumerate_eq)
  then show ?thesis using assms(4,5) by (cases "n = 1") auto
qed


subsection \<open>The left-to-right counting step\<close>


lemma incr_cell_square: "incr_cell tc p = Inr tc' \<Longrightarrow> square n tc \<Longrightarrow> square n tc'"
  by (auto simp: incr_cell_def and_then_eq_Inr intro: square_update)

lemma foldE_incr_cell_square:
  "foldE incr_cell P tc = Inr tc' \<Longrightarrow> square n tc \<Longrightarrow> square n tc'"
  by (induction P arbitrary: tc) (auto simp: and_then_eq_Inr dest: incr_cell_square)

lemma base_count_Inr:
  assumes "HDPHMM_count_transitions self sl = Inr (tc, self')"
  shows "square (state_dim self) tc \<and> self' = self\<lparr>trans_counts := Some tc\<rparr>"
  using assms foldE_incr_cell_square [OF _ square_zeros]
  by (auto simp: HDPHMM_count_transitions_def and_then_eq_Inr foldE_count_sequence)

lemma sum_list_upt: "sum_list (map f [0..<n]) = (\<Sum>j<n. f j)"
  by (simp add: interv_sum_list_conv_sum_set_nat atLeast0LessThan)

lemma triu_row:
  "i < length a \<Longrightarrow> triu a ! i = map (\<lambda>j. if i \<le> j then a ! i ! j else 0) [0..<length (a ! i)]"
  by (simp add: triu_def map_enumerate)

lemma sum_triu_row:
  assumes "square n a" "i < n"
  shows "map sum_list (triu a) ! i = (\<Sum>j \<in> {i..<n}. a ! i ! j)"
proof -
  have "sum_list (triu a ! i) = (\<Sum>j<n. if i \<le> j then a ! i ! j else 0)"
    using assms by (simp add: triu_row square_length square_nth sum_list_upt)
  also have "\<dots> = (\<Sum>j \<in> {i..<n}. a ! i ! j)"
    by (rule sum.mono_neutral_cong_right) auto
  finally show ?thesis using assms by (simp add: triu_def square_length)
qed

lemma sum_axis1_nth:
  assumes "square n a" "i < n"
  shows "sum_axis1 a ! i = (\<Sum>j<n. sint (a ! i ! j))"
proof -
  have "sum_list (map sint (a ! i)) = (\<Sum>j<n. sint (a ! i ! j))"
    using assms by (simp add: sum_list_sum_nth square_nth atLeast0LessThan)
  then show ?thesis using assms by (simp add: sum_axis1_def square_length)
qed

lemma np_divide_scalar_Inr:
  assumes "np_divide xs (replicate (length xs) s) = Inr pv"
  shows "pv = map (\<lambda>x. x / s) xs"
proof -
  have "zip xs (replicate (length xs) s) = map (\<lambda>x. (x, s)) xs"
    by (induction xs) simp_all
  then show ?thesis using assms by (auto simp: np_divide_def o_def split: if_splits)
qed

lemma take_row:
  "i \<le> length row \<Longrightarrow> map f (take i row) = map (\<lambda>j. f (row ! j)) [0..<i]"
  by (rule nth_equalityI) simp_all

lemma sum_take_row:
  "i \<le> length (row :: real list) \<Longrightarrow> sum_list (take i row) = (\<Sum>j<i. row ! j)"
  using take_row [of i row "\<lambda>x. x"] by (simp add: sum_list_upt [symmetric])

lemma LTR_row_Inr:
  assumes "LTR_row R fa totalfrom totalweight (tc, g) i = Inr (tc', g')"
    and "square n fa" "i < n" "length tc = n" "length (tc ! i) = n"
  shows "\<exists>draws g1 split.
           np_geometric R (totalweight ! i) (totalfrom ! i) g = Inr (draws, g1) \<and>
           np_multinomial R (sum_list draws)
             (map (\<lambda>j. fa ! i ! j / (\<Sum>j'<i. fa ! i ! j')) [0..<i]) g1 = Inr (split, g') \<and>
           tc' = tc[i := (if length split = i then map word_of_int split
                          else replicate i (word_of_int (hd split))) @ drop i (tc ! i)]"
proof -
  let ?part = "take i (fa ! i)"
  from assms(1) obtain w draws g1 pvals split where
    w: "(if i < length totalweight then Inr (totalweight ! i) else Inl IndexError) = Inr w"
    and ge: "np_geometric R w (totalfrom ! i) g = Inr (draws, g1)"
    and pv: "np_divide ?part (replicate (length ?part) (sum_list ?part)) = Inr pvals"
    and mu: "np_multinomial R (sum_list draws) pvals g1 = Inr (split, g')"
    and as: "assign_row_prefix tc i split = Inr tc'"
    by (auto simp: LTR_row_def and_then_eq_Inr Let_def)
  from w have w': "w = totalweight ! i" by (auto split: if_splits)
  have li: "i \<le> length (fa ! i)" using assms(2,3) by (simp add: square_nth)
  have "pvals = map (\<lambda>j. fa ! i ! j / (\<Sum>j'<i. fa ! i ! j')) [0..<i]"
    using np_divide_scalar_Inr [OF pv] li by (simp add: take_row sum_take_row)
  moreover have "tc' = tc[i := (if length split = i then map word_of_int split
                          else replicate i (word_of_int (hd split))) @ drop i (tc ! i)]"
    using as assms(3,5) by (auto simp: assign_row_prefix_def Let_def split: if_splits)
  ultimately show ?thesis using ge mu w' by blast
qed


lemma square_iff: "square n a \<longleftrightarrow> length a = n \<and> (\<forall>r<n. length (a ! r) = n)"
  by (auto simp: square_def list_all_length)

lemma LTR_fold:
  assumes "foldE (LTR_row R fa tf tw) [0..<k] (tc, g) = Inr (tc', g')"
    and "square n fa" "square n tc" "k \<le> n"
  shows "square n tc' \<and> (\<forall>r. k \<le> r \<longrightarrow> tc' ! r = tc ! r) \<and>
     (\<forall>i<k. \<exists>draws g0 g1 split g2.
        np_geometric R (tw ! i) (tf ! i) g0 = Inr (draws, g1) \<and>
        np_multinomial R (sum_list draws)
          (map (\<lambda>j. fa ! i ! j / (\<Sum>j'<i. fa ! i ! j')) [0..<i]) g1 = Inr (split, g2) \<and>
        tc' ! i = (if length split = i then map word_of_int split
                   else replicate i (word_of_int (hd split))) @ drop i (tc ! i))"
  using assms(1,4)
proof (induction k arbitrary: tc' g')
  case 0
  then show ?case using assms(3) by simp
next
  case (Suc k)
  from Suc.prems(1) obtain tc1 g1 where
    f: "foldE (LTR_row R fa tf tw) [0..<k] (tc, g) = Inr (tc1, g1)"
    and r: "LTR_row R fa tf tw (tc1, g1) k = Inr (tc', g')"
    by (auto simp: foldE_append and_then_eq_Inr)
  from Suc.prems(2) have kn: "k < n" "k \<le> n" by simp_all
  from Suc.IH [OF f kn(2)] have sq1: "square n tc1"
    and keep: "\<forall>r. k \<le> r \<longrightarrow> tc1 ! r = tc ! r"
    and earlier: "\<forall>i<k. \<exists>draws g0 g1 split g2.
        np_geometric R (tw ! i) (tf ! i) g0 = Inr (draws, g1) \<and>
        np_multinomial R (sum_list draws)
          (map (\<lambda>j. fa ! i ! j / (\<Sum>j'<i. fa ! i ! j')) [0..<i]) g1 = Inr (split, g2) \<and>
        tc1 ! i = (if length split = i then map word_of_int split
                   else replicate i (word_of_int (hd split))) @ drop i (tc ! i)"
    by blast+
  have l1: "length tc1 = n" "length (tc1 ! k) = n"
    using sq1 kn by (simp_all add: square_iff)
  from LTR_row_Inr [OF r assms(2) kn(1) l1] obtain draws g2 split where
    ge: "np_geometric R (tw ! k) (tf ! k) g1 = Inr (draws, g2)"
    and mu: "np_multinomial R (sum_list draws)
          (map (\<lambda>j. fa ! k ! j / (\<Sum>j'<k. fa ! k ! j')) [0..<k]) g2 = Inr (split, g')"
    and tc': "tc' = tc1[k := (if length split = k then map word_of_int split
                          else replicate k (word_of_int (hd split))) @ drop k (tc1 ! k)]"
    by blast
  have A: "square n tc'"
    unfolding square_iff
  proof (intro conjI allI impI)
    show "length tc' = n" using l1 by (simp add: tc')
    fix r assume "r < n"
    then show "length (tc' ! r) = n"
      using l1 sq1 kn by (cases "r = k") (auto simp: tc' square_iff)
  qed
  have B: "tc' ! r = tc ! r" if "Suc k \<le> r" for r
    using that keep by (simp add: tc')
  have C: "\<exists>draws g0 g1 split g2.
        np_geometric R (tw ! i) (tf ! i) g0 = Inr (draws, g1) \<and>
        np_multinomial R (sum_list draws)
          (map (\<lambda>j. fa ! i ! j / (\<Sum>j'<i. fa ! i ! j')) [0..<i]) g1 = Inr (split, g2) \<and>
        tc' ! i = (if length split = i then map word_of_int split
                   else replicate i (word_of_int (hd split))) @ drop i (tc ! i)"
    if "i < Suc k" for i
  proof (cases "i = k")
    case True
    have "tc' ! k = (if length split = k then map word_of_int split
                   else replicate k (word_of_int (hd split))) @ drop k (tc ! k)"
      using l1 kn keep by (simp add: tc')
    with ge mu True show ?thesis by blast
  next
    case False
    with that have "i < k" by simp
    moreover have "tc' ! i = tc1 ! i" using False by (simp add: tc')
    ultimately show ?thesis using earlier by simp
  qed
  show ?case using A B C by blast
qed

lemma ltr_dispatch:
  assumes "klass self = LTRHDPHMMTransitions \<or> klass self = StickyLTRHDPHMMTransitions"
  shows "count_transitions R self =
     LTR_count_transitions
       (\<lambda>R self states_list g.
          and_then (HDPHMM_count_transitions self states_list) (\<lambda>(tc, self1). Inr (tc, self1, g)))
       R self"
  using assms by (auto simp: count_transitions_def)


lemma ltr_resample_no_fullA_fails:
  assumes "klass self = LTRHDPHMMTransitions \<or> klass self = StickyLTRHDPHMMTransitions"
    and "fullA self = None"
  shows "\<exists>e. resample R self sl g = Inl e"
proof -
  have c: "\<exists>e. count_transitions R self sl g = Inl e"
  proof (cases "HDPHMM_count_transitions self sl")
    case (Inl e)
    then show ?thesis
      by (simp add: ltr_dispatch [OF assms(1)] LTR_count_transitions_def)
  next
    case (Inr r)
    obtain tc s1 where r: "r = (tc, s1)" by (cases r)
    from base_count_Inr [OF Inr [unfolded r]] have "fullA s1 = None"
      using assms(2) by simp
    then show ?thesis
      by (simp add: ltr_dispatch [OF assms(1)] LTR_count_transitions_def Inr r getattr_def)
  qed
  have "resample R self sl g = HDPHMM_resample R self sl g"
    using assms(1) by (auto simp: resample_def)
  then show ?thesis using c by (auto simp: HDPHMM_resample_def)
qed

subsection \<open>The sticky diagonal\<close>


lemma mapE_Inr:
  "(\<And>x. x \<in> set xs \<Longrightarrow> f x = Inr (h x)) \<Longrightarrow> mapE f xs = Inr (map h xs)"
  by (induction xs) simp_all

lemma enumerate_upt: "enumerate 0 xs = map (\<lambda>i. (i, xs ! i)) [0..<length xs]"
  by (rule nth_equalityI) (simp_all add: nth_enumerate_eq)

lemma add_kappa_diag_square:
  assumes "square n data" "0 < n"
  shows "add_kappa_diag k data
           = Inr (map (\<lambda>i. map (\<lambda>j. data ! i ! j + (if i = j then k else 0)) [0..<n]) [0..<n])"
proof -
  have l: "length data = n" using assms by (simp add: square_length)
  have row: "bcast2 (+) (data ! i) ((replicate n 0)[i := k])
               = Inr (map (\<lambda>j. data ! i ! j + (if i = j then k else 0)) [0..<n])"
    if "i < n" for i
  proof -
    have lr: "length (data ! i) = n" using assms that by (simp add: square_nth)
    have "map (\<lambda>(x, y). x + y) (zip (data ! i) ((replicate n 0)[i := k]))
            = map (\<lambda>j. data ! i ! j + (if i = j then k else 0)) [0..<n]"
      using lr that by (intro nth_equalityI) (auto simp: nth_list_update)
    then show ?thesis using lr by (simp add: bcast2_def)
  qed
  have "mapE (\<lambda>(i, row). bcast2 (+) row ((replicate (length data) 0)[i := k]))
          (map (\<lambda>i. (i, data ! i)) [0..<n])
        = Inr (map (\<lambda>(i, row). map (\<lambda>j. data ! i ! j + (if i = j then k else 0)) [0..<n])
                (map (\<lambda>i. (i, data ! i)) [0..<n]))"
    by (rule mapE_Inr) (auto simp: l row)
  then show ?thesis by (simp add: add_kappa_diag_def enumerate_upt l o_def)
qed

lemma square_tabulate: "square n (map (\<lambda>i. map (f i) [0..<n]) [0..<n])"
  by (simp add: square_iff)

lemma gamma_shape_square:
  assumes "square n tc" "length b = n"
  shows "gamma_shape self b tc
           = Inr (map (\<lambda>i. map (\<lambda>j. alpha self * b ! j + tc ! i ! j + 1 / 100) [0..<n]) [0..<n])"
proof -
  have row: "bcast2 (+) (map (\<lambda>x. alpha self * x) b) row
               = Inr (map (\<lambda>j. alpha self * b ! j + row ! j) [0..<n])"
    if "length row = n" for row
  proof -
    have "map (\<lambda>(x, y). x + y) (zip (map (\<lambda>x. alpha self * x) b) row)
            = map (\<lambda>j. alpha self * b ! j + row ! j) [0..<n]"
      using that assms(2) by (intro nth_equalityI) auto
    then show ?thesis using that assms(2) by (simp add: bcast2_def)
  qed
  have "mapE (\<lambda>row. bcast2 (+) (map (\<lambda>x. alpha self * x) b) row) tc
          = Inr (map (\<lambda>row. map (\<lambda>j. alpha self * b ! j + row ! j) [0..<n]) tc)"
    using assms(1) by (intro mapE_Inr row) (auto simp: square_def list_all_iff)
  moreover have "map (map (\<lambda>x. x + 1 / 100)) (map (\<lambda>row. map (\<lambda>j. alpha self * b ! j + row ! j) [0..<n]) tc)
      = map (\<lambda>i. map (\<lambda>j. alpha self * b ! j + tc ! i ! j + 1 / 100) [0..<n]) [0..<n]"
    using assms(1) by (intro nth_equalityI) (auto simp: square_iff)
  ultimately show ?thesis by (simp add: gamma_shape_def)
qed


subsection \<open>What each step assigns\<close>


lemma get_m_Inr:
  "HDPHMM_get_m R self tc g = Inr (m, self', g') \<Longrightarrow> self' = self\<lparr>self_m := Some m\<rparr>"
  by (auto simp: HDPHMM_get_m_def and_then_eq_Inr)

lemma base_resample_beta_Inr:
  "HDPHMM_resample_beta R self m g = Inr (self', g') \<Longrightarrow>
     \<exists>b. np_dirichlet R
            (map (\<lambda>c. gamma self / real (state_dim self) + real_of_int c + 1 / 100) (sum_axis0 m)) g
          = Inr (b, g') \<and> self' = self\<lparr>beta := Some b\<rparr> \<and> 0 < state_dim self"
  by (auto simp: HDPHMM_resample_beta_def and_then_eq_Inr split: if_splits)

lemma sticky_resample_beta_Inr:
  assumes "Sticky_resample_beta HDPHMM_resample_beta R self m g = Inr (self', g')"
  shows "\<exists>nm b. self' = self\<lparr>newm := Some nm, beta := Some b\<rparr>"
  using assms
  by (auto simp: Sticky_resample_beta_def and_then_eq_Inr dest!: base_resample_beta_Inr)

lemma base_resample_A_Inr:
  "HDPHMM_resample_A R self tc g = Inr (self', g') \<Longrightarrow> \<exists>a. self' = self\<lparr>self_A := Some a\<rparr>"
  by (auto simp: HDPHMM_resample_A_def and_then_eq_Inr split: if_splits)

lemma sticky_resample_A_Inr:
  "Sticky_resample_A HDPHMM_resample_A R self tc g = Inr (self', g') \<Longrightarrow>
     \<exists>a. self' = self\<lparr>self_A := Some a\<rparr>"
  by (auto simp: Sticky_resample_A_def and_then_eq_Inr dest!: base_resample_A_Inr)

lemma conc_resample_Inr:
  assumes "Conc_resample R self g = Inr (self', g')"
  shows "\<exists>ao go. self' = self\<lparr>alpha_obj := ao, alpha := concentration ao * real (state_dim self),
                           gamma_obj := go, gamma := concentration go * real (state_dim self)\<rparr>"
  using assms by (auto simp: Conc_resample_def and_then_eq_Inr Let_def)


subsection \<open>Shapes kept by the steps\<close>

lemma get_m_cell_square:
  assumes "get_m_cell R self (m, g) cell = Inr (m', g')" "square n m"
  shows "square n m'"
proof -
  obtain i j val where c: "cell = ((i, j), val)" by (cases cell) auto
  from get_m_cell_Inr [OF assms(1) [unfolded c]] obtain v where "m' = m[i := (m ! i)[j := v]]"
    by blast
  then show ?thesis using assms(2) by (simp add: square_update)
qed

lemma foldE_get_m_square:
  "foldE (get_m_cell R self) cells (m, g) = Inr (m', g') \<Longrightarrow> square n m \<Longrightarrow> square n m'"
proof (induction cells arbitrary: m g)
  case Nil
  then show ?case by simp
next
  case (Cons c cs)
  from Cons.prems(1) obtain m1 g1 where
    a: "get_m_cell R self (m, g) c = Inr (m1, g1)"
    and b: "foldE (get_m_cell R self) cs (m1, g1) = Inr (m', g')"
    by (auto simp: and_then_eq_Inr)
  show ?case by (rule Cons.IH [OF b get_m_cell_square [OF a Cons.prems(2)]])
qed

lemma get_m_square:
  assumes "HDPHMM_get_m R self tc g = Inr (m, self', g')"
  shows "square (state_dim self) m"
proof (cases "all_zero tc")
  case True
  then show ?thesis using assms by (auto simp: HDPHMM_get_m_def square_zeros)
next
  case False
  then have "foldE (get_m_cell R self) (ndenumerate tc) (zeros (state_dim self), g) = Inr (m, g')"
    using assms by (auto simp: HDPHMM_get_m_def and_then_eq_Inr)
  then show ?thesis by (rule foldE_get_m_square) (rule square_zeros)
qed

lemma assign_row_prefix_square:
  assumes "assign_row_prefix tc i v = Inr tc'" "square n tc" "i < n"
  shows "square n tc'"
proof -
  have l: "length tc = n" "length (tc ! i) = n"
    using assms(2,3) by (simp_all add: square_iff)
  from assms(1) obtain row' where tc': "tc' = tc[i := row']" and lr: "length row' = n"
    using l assms(3) by (auto simp: assign_row_prefix_def Let_def split: if_splits)
  show ?thesis
    unfolding square_iff
  proof (intro conjI allI impI)
    show "length tc' = n" using l by (simp add: tc')
    fix r assume "r < n"
    then show "length (tc' ! r) = n"
      using assms(2) l lr by (cases "r = i") (auto simp: tc' square_iff)
  qed
qed

lemma LTR_row_square:
  assumes "LTR_row R fa tf tw (tc, g) i = Inr (tc', g')" "square n tc" "i < n"
  shows "square n tc'"
proof -
  from assms(1) obtain split where "assign_row_prefix tc i split = Inr tc'"
    by (auto simp: LTR_row_def and_then_eq_Inr Let_def)
  then show ?thesis using assms(2,3) by (rule assign_row_prefix_square)
qed

lemma LTR_fold_square:
  assumes "foldE (LTR_row R fa tf tw) [0..<k] (tc, g) = Inr (tc', g')" "square n tc" "k \<le> n"
  shows "square n tc'"
  using assms(1,3)
proof (induction k arbitrary: tc' g')
  case 0
  then show ?case using assms(2) by simp
next
  case (Suc k)
  from Suc.prems(1) obtain tc1 g1 where
    f: "foldE (LTR_row R fa tf tw) [0..<k] (tc, g) = Inr (tc1, g1)"
    and r: "LTR_row R fa tf tw (tc1, g1) k = Inr (tc', g')"
    by (auto simp: foldE_append and_then_eq_Inr)
  from Suc.prems(2) have "k \<le> n" "k < n" by simp_all
  from LTR_row_square [OF r Suc.IH [OF f \<open>k \<le> n\<close>] \<open>k < n\<close>] show ?case .
qed

lemma iadd_diag_square_shape:
  assumes "iadd_diag tc st = Inr tc'" "square n tc"
  shows "square n tc'"
  using assms
  by (auto simp: iadd_diag_def Let_def square_iff nth_enumerate_eq split: if_splits)

lemma count_transitions_Inr:
  assumes "count_transitions R self sl g = Inr (tc, self1, g1)"
  shows "square (state_dim self) tc \<and> self1 = self\<lparr>trans_counts := Some tc\<rparr>"
proof (cases "left_to_right (klass self)")
  case True
  then have k: "klass self = LTRHDPHMMTransitions \<or> klass self = StickyLTRHDPHMMTransitions"
    by (simp add: left_to_right_def)
  from assms [unfolded ltr_dispatch [OF k] LTR_count_transitions_def] obtain tc0 s0 fa where
    b: "HDPHMM_count_transitions self sl = Inr (tc0, s0)"
    and f: "foldE (LTR_row R fa (sum_axis1 tc0) (map sum_list (triu fa))) [0..<length tc0] (tc0, g)
              = Inr (tc, g1)"
    and s: "self1 = s0\<lparr>trans_counts := Some tc\<rparr>"
    by (auto simp: and_then_eq_Inr Let_def split: if_splits)
  from base_count_Inr [OF b] have sq: "square (state_dim self) tc0"
    and s0: "s0 = self\<lparr>trans_counts := Some tc0\<rparr>" by auto
  have "length tc0 \<le> state_dim self" using sq by (simp add: square_iff)
  from LTR_fold_square [OF f sq this] show ?thesis using s s0 by simp
next
  case False
  then have "count_transitions R self sl g
               = and_then (HDPHMM_count_transitions self sl) (\<lambda>(tc, self1). Inr (tc, self1, g))
             \<or> count_transitions R self sl g = Inl AttributeError"
    by (cases "klass self") (simp_all add: count_transitions_def left_to_right_def)
  with assms have "and_then (HDPHMM_count_transitions self sl) (\<lambda>(tc, self1). Inr (tc, self1, g))
                    = Inr (tc, self1, g1)"
    by auto
  then have "HDPHMM_count_transitions self sl = Inr (tc, self1)"
    by (auto simp: and_then_eq_Inr)
  from base_count_Inr [OF this] show ?thesis .
qed

lemma augment_data_Inr:
  assumes "HSMM_augment_data R self tc g = Inr (tc', self', g')" "square n tc"
  shows "square n tc' \<and> self' = self\<lparr>trans_counts := Some tc'\<rparr>"
  using assms
  by (auto simp: HSMM_augment_data_def and_then_eq_Inr Let_def split: if_splits
      dest: iadd_diag_square_shape)


subsection \<open>Normalised rows\<close>

lemma sum_list_divide: "sum_list (map (\<lambda>x. x / s) (row :: real list)) = sum_list row / s"
  by (induction row) (simp_all add: add_divide_distrib)

lemma stochastic_normalised:
  assumes "\<forall>x \<in> set row. 0 \<le> x" "sum_list row \<noteq> 0"
  shows "stochastic_row (map (\<lambda>x. x / sum_list row) row)"
proof -
  have "0 \<le> sum_list row" using assms(1) by (simp add: sum_list_nonneg)
  with assms(2) have "0 < sum_list row" by simp
  then show ?thesis
    using assms by (simp add: stochastic_row_def sum_list_divide list_all_iff)
qed

lemma divide_rows_Inr:
  assumes "divide_rows a d = Inr a'" "length d = length a" "\<forall>row \<in> set a. row \<noteq> []"
  shows "(\<forall>y \<in> set d. y \<noteq> 0) \<and> a' = map (\<lambda>(row, y). map (\<lambda>x. x / y) row) (zip a d)"
proof -
  let ?cells = "concat (map (\<lambda>(row, y). map (\<lambda>x. (x, y)) row) (zip a d))"
  from assms(1) have no: "\<not> list_ex (\<lambda>(x, y). y = 0) ?cells"
    and a': "a' = map (\<lambda>(row, y). map (\<lambda>x. x / y) row) (zip a d)"
    by (auto simp: divide_rows_def Let_def split: if_splits)
  have "y \<noteq> 0" if "y \<in> set d" for y
  proof
    assume z: "y = 0"
    from that obtain k where k: "k < length d" "d ! k = y" by (auto simp: in_set_conv_nth)
    with assms(2,3) have ne: "a ! k \<noteq> []" by auto
    have "(a ! k, y) \<in> set (zip a d)"
      using k assms(2) by (auto simp: in_set_zip)
    moreover have "hd (a ! k) \<in> set (a ! k)" using ne by simp
    ultimately have mem: "(hd (a ! k), y) \<in> set ?cells" by force
    have "list_ex (\<lambda>(x, y). y = 0) ?cells"
      unfolding list_ex_iff by (rule bexI [OF _ mem]) (simp add: z)
    with no show False by simp
  qed
  then show ?thesis using a' by blast
qed

lemma normalize_rows:
  assumes "divide_rows a (map sum_list a) = Inr a'" "square n a" "0 < n"
    and "\<forall>row \<in> set a. \<forall>x \<in> set row. 0 \<le> x"
  shows "a' = map (\<lambda>row. map (\<lambda>x. x / sum_list row) row) a \<and> square n a' \<and>
         list_all stochastic_row a'"
proof -
  have ne: "\<forall>row \<in> set a. row \<noteq> []"
    using assms(2,3) by (auto simp: square_def list_all_iff)
  from divide_rows_Inr [OF assms(1) _ ne] have nz: "\<forall>y \<in> set (map sum_list a). y \<noteq> 0"
    and a': "a' = map (\<lambda>(row, y). map (\<lambda>x. x / y) row) (zip a (map sum_list a))"
    by simp_all
  have z: "zip a (map sum_list a) = map (\<lambda>row. (row, sum_list row)) a"
    by (induction a) simp_all
  have e: "a' = map (\<lambda>row. map (\<lambda>x. x / sum_list row) row) a"
    by (simp add: a' z o_def)
  have "square n a'"
    using assms(2) by (simp add: e square_def list_all_iff)
  moreover have "list_all stochastic_row a'"
    using nz assms(4) by (auto simp: e list_all_iff intro!: stochastic_normalised)
  ultimately show ?thesis using e by blast
qed

subsection \<open>The Gamma draws\<close>

lemma gamma_draws:
  assumes "mapS (mapS (stats_gamma_rvs1 R)) shape g = Inr (a, g')" "sampler_contract R"
    and "square n shape"
  shows "square n a \<and> (\<forall>row \<in> set a. \<forall>x \<in> set row. 0 \<le> x)"
proof -
  from mapS_Inr [OF assms(1)] have l: "length a = length shape"
    and rows: "\<forall>k<length shape. \<exists>g0 g1. mapS (stats_gamma_rvs1 R) (shape ! k) g0 = Inr (a ! k, g1)"
    by blast+
  have row: "length (a ! k) = n \<and> (\<forall>x \<in> set (a ! k). 0 \<le> x)" if "k < n" for k
  proof -
    from that assms(3) have kl: "k < length shape" and ls: "length (shape ! k) = n"
      by (simp_all add: square_iff)
    with rows obtain g0 g1 where r: "mapS (stats_gamma_rvs1 R) (shape ! k) g0 = Inr (a ! k, g1)"
      by blast
    from mapS_Inr [OF r] have lk: "length (a ! k) = length (shape ! k)"
      and el: "\<forall>j<length (shape ! k). \<exists>g0 g1. stats_gamma_rvs1 R (shape ! k ! j) g0 = Inr (a ! k ! j, g1)"
      by blast+
    have "0 \<le> x" if "x \<in> set (a ! k)" for x
    proof -
      from that obtain j where "j < length (a ! k)" "a ! k ! j = x"
        by (auto simp: in_set_conv_nth)
      with el lk obtain g0 g1 where "stats_gamma_rvs1 R (shape ! k ! j) g0 = Inr (x, g1)"
        by auto
      with assms(2) show ?thesis unfolding sampler_contract_def by blast
    qed
    then show ?thesis using lk ls by simp
  qed
  have ln: "length a = n" using l assms(3) by (simp add: square_iff)
  have "square n a" unfolding square_iff using ln row by simp
  moreover have "\<forall>x \<in> set r. 0 \<le> x" if "r \<in> set a" for r
  proof -
    from that obtain k where "k < length a" "a ! k = r" by (auto simp: in_set_conv_nth)
    with row [of k] ln show ?thesis by simp
  qed
  ultimately show ?thesis by blast
qed

lemma gamma_shape_Inr_square:
  assumes "square n tc" "length b = n"
  shows "\<exists>shape. gamma_shape self b tc = Inr shape \<and> square n shape"
  using gamma_shape_square [OF assms, of self] by (simp add: square_iff)

lemma base_resample_A_inv:
  assumes "HDPHMM_resample_A R s tc g = Inr (s', g')" "sampler_contract R"
    and "square n tc" "0 < n" "beta s = Some b" "length b = n"
  shows "\<exists>a. s' = s\<lparr>self_A := Some a\<rparr> \<and> square n a \<and> list_all stochastic_row a"
proof -
  from gamma_shape_Inr_square [OF assms(3,6), of s] obtain shape where
    sh: "gamma_shape s b tc = Inr shape" and sq: "square n shape" by blast
  from assms(1) sh assms(5) obtain a g1 a' where
    dr: "mapS (mapS (stats_gamma_rvs1 R)) shape g = Inr (a, g1)"
    and dv: "divide_rows a (map sum_list a) = Inr a'"
    and s': "s' = s\<lparr>self_A := Some a'\<rparr>"
    by (auto simp: HDPHMM_resample_A_def getattr_def and_then_eq_Inr split: if_splits)
  from gamma_draws [OF dr assms(2) sq] have "square n a" "\<forall>row \<in> set a. \<forall>x \<in> set row. 0 \<le> x"
    by blast+
  from normalize_rows [OF dv this(1) assms(4) this(2)] s' show ?thesis by blast
qed


subsection \<open>The beta step\<close>

lemma sum_axis0_length: "square n m \<Longrightarrow> 0 < n \<Longrightarrow> length (sum_axis0 m) = n"
  using sum_axis0_nth [of m n] by (simp add: square_def list_all_iff)

lemma contract_dirichlet:
  "sampler_contract R \<Longrightarrow> np_dirichlet R ps g = Inr (b, g') \<Longrightarrow>
     length b = length ps \<and> stochastic_row b"
  unfolding sampler_contract_def by blast

lemma base_resample_beta_inv:
  assumes "HDPHMM_resample_beta R s m g = Inr (s', g')" "sampler_contract R"
    and "square (state_dim s) m"
  shows "\<exists>b. s' = s\<lparr>beta := Some b\<rparr> \<and> length b = state_dim s \<and> stochastic_row b \<and>
             0 < state_dim s"
proof -
  from base_resample_beta_Inr [OF assms(1)] obtain b where
    d: "np_dirichlet R
            (map (\<lambda>c. gamma s / real (state_dim s) + real_of_int c + 1 / 100) (sum_axis0 m)) g
          = Inr (b, g')" and s': "s' = s\<lparr>beta := Some b\<rparr>" and p: "0 < state_dim s"
    by blast
  from contract_dirichlet [OF assms(2) d] have "length b = length (sum_axis0 m)" "stochastic_row b"
    by simp_all
  then show ?thesis using s' p sum_axis0_length [OF assms(3) p]
    by (intro exI [of _ b]) simp
qed

lemma fold_update_square:
  "square n a \<Longrightarrow>
     square n (fold (\<lambda>(k, v) a'. case P ! k of (i, j) \<Rightarrow> a'[i := (a' ! i)[j := v]]) xs a)"
  by (induction xs arbitrary: a) (auto simp: square_update split: prod.splits)

lemma write_flat_stride_square: "square n a \<Longrightarrow> square n (write_flat_stride a idx vals)"
  unfolding write_flat_stride_def by (rule fold_update_square)

lemma sticky_resample_beta_inv:
  assumes "Sticky_resample_beta HDPHMM_resample_beta R s m g = Inr (s', g')" "sampler_contract R"
    and "square (state_dim s) m"
  shows "\<exists>nm b. s' = s\<lparr>newm := Some nm, beta := Some b\<rparr> \<and> length b = state_dim s \<and>
             stochastic_row b \<and> 0 < state_dim s"
proof -
  from assms(1) obtain nm g1 where
    n: "nm = m \<or> (\<exists>idx vals. nm = write_flat_stride m idx vals)"
    and b: "HDPHMM_resample_beta R (s\<lparr>newm := Some nm\<rparr>) nm g1 = Inr (s', g')"
    by (auto simp: Sticky_resample_beta_def and_then_eq_Inr Let_def split: if_splits)
  from n assms(3) have "square (state_dim s) nm"
    by (auto simp: write_flat_stride_square)
  then have "square (state_dim (s\<lparr>newm := Some nm\<rparr>)) nm" by simp
  from base_resample_beta_inv [OF b assms(2) this] show ?thesis by auto
qed

lemma resample_beta_inv:
  assumes "resample_beta R s m g = Inr (s', g')" "sampler_contract R"
    and "square (state_dim s) m"
  shows "state_dim s' = state_dim s \<and> klass s' = klass s \<and> 0 < state_dim s \<and>
         (\<exists>b. beta s' = Some b \<and> length b = state_dim s \<and> stochastic_row b)"
proof -
  consider (base) "resample_beta R s = HDPHMM_resample_beta R s"
    | (sticky) "resample_beta R s = Sticky_resample_beta HDPHMM_resample_beta R s"
    | (none) "resample_beta R s m g = Inl AttributeError"
    by (cases "klass s") (simp_all add: resample_beta_def)
  then show ?thesis
  proof cases
    case base
    with assms(1) have "HDPHMM_resample_beta R s m g = Inr (s', g')" by simp
    from base_resample_beta_inv [OF this assms(2,3)] show ?thesis by auto
  next
    case sticky
    with assms(1) have "Sticky_resample_beta HDPHMM_resample_beta R s m g = Inr (s', g')" by simp
    from sticky_resample_beta_inv [OF this assms(2,3)] show ?thesis by auto
  next
    case none
    with assms(1) show ?thesis by simp
  qed
qed

subsection \<open>The A step\<close>

lemma on_flat_stride_square:
  assumes "square n a" "i < n" "j < n"
  shows "on_flat_stride a i j \<longleftrightarrow> i = j"
proof -
  have l: "length a = n" "length (a ! i) = n" using assms by (simp_all add: square_iff)
  have "(i * n + j) mod (n + 1) = 0 \<longleftrightarrow> i = j"
  proof (cases "i \<le> j")
    case True
    then have "i * n + j = (j - i) + i * (n + 1)" by (simp add: algebra_simps)
    then have "(i * n + j) mod (n + 1) = (j - i) mod (n + 1)" by (simp only: mod_mult_self1)
    also have "\<dots> = j - i" using assms(3) by simp
    finally show ?thesis using True by auto
  next
    case False
    then have ji: "j < i" by simp
    then have "i * n + j = (n + 1 + j - i) + (i - 1) * (n + 1)"
      using assms(2) by (cases i) (simp_all add: algebra_simps)
    then have "(i * n + j) mod (n + 1) = (n + 1 + j - i) mod (n + 1)" by (simp only: mod_mult_self1)
    also have "\<dots> = n + 1 + j - i" using ji assms(2) by simp
    finally show ?thesis using ji assms(2) by auto
  qed
  then show ?thesis by (simp add: on_flat_stride_def l)
qed

lemma zero_flat_stride_square:
  assumes "square n a"
  shows "zero_flat_stride a = map (\<lambda>i. map (\<lambda>j. if i = j then 0 else a ! i ! j) [0..<n]) [0..<n]"
  using assms
  by (intro nth_equalityI)
     (auto simp: zero_flat_stride_def square_iff nth_enumerate_eq on_flat_stride_square [OF assms])

lemma triu_square:
  assumes "square n a"
  shows "triu a = map (\<lambda>i. map (\<lambda>j. if i \<le> j then a ! i ! j else 0) [0..<n]) [0..<n]"
  using assms
  by (intro nth_equalityI) (auto simp: triu_def square_iff nth_enumerate_eq)

lemma stochastic_nonneg:
  assumes "list_all stochastic_row a" "square n a" "i < n" "j < n"
  shows "0 \<le> a ! i ! j"
proof -
  have "a ! i \<in> set a" "a ! i ! j \<in> set (a ! i)" using assms(2-4) by (simp_all add: square_iff)
  with assms(1) show ?thesis by (auto simp: list_all_iff stochastic_row_def)
qed

lemma tabulate_nonneg:
  assumes "\<And>i j. i < n \<Longrightarrow> j < n \<Longrightarrow> 0 \<le> f i j"
  shows "\<forall>row \<in> set (map (\<lambda>i. map (f i) [0..<n]) [0..<n]). \<forall>x \<in> set row. (0::real) \<le> x"
  using assms by auto

lemma LTR_wrapper:
  assumes "LTR_resample_A super R s tc g = Inr (s', g')" "0 < n"
    and "\<And>s1 g1. super R s tc g = Inr (s1, g1) \<Longrightarrow>
           \<exists>a. s1 = s\<lparr>self_A := Some a\<rparr> \<and> square n a \<and> list_all stochastic_row a"
  shows "\<exists>a fa. s' = s\<lparr>self_A := Some a, fullA := Some fa\<rparr> \<and> square n a \<and>
           list_all stochastic_row a \<and> square n fa"
proof -
  from assms(1) obtain s1 g1 where su: "super R s tc g = Inr (s1, g1)"
    by (auto simp: LTR_resample_A_def and_then_eq_Inr)
  from assms(3) [OF su] obtain fa where s1: "s1 = s\<lparr>self_A := Some fa\<rparr>"
    and sq: "square n fa" and st: "list_all stochastic_row fa" by blast
  from assms(1) su s1 obtain a' where
    dv: "divide_rows (triu fa) (map sum_list (triu fa)) = Inr a'"
    and s': "s' = s1\<lparr>fullA := Some fa, self_A := Some a'\<rparr>"
    by (auto simp: LTR_resample_A_def and_then_eq_Inr getattr_def)
  have nn: "\<forall>row \<in> set (triu fa). \<forall>x \<in> set row. 0 \<le> x"
    unfolding triu_square [OF sq]
    by (rule tabulate_nonneg) (simp add: stochastic_nonneg [OF st sq])
  have sqt: "square n (triu fa)"
    unfolding triu_square [OF sq] by (rule square_tabulate)
  from normalize_rows [OF dv sqt assms(2) nn] have "square n a'" "list_all stochastic_row a'"
    by blast+
  then show ?thesis using s' s1 sq by (intro exI [of _ a'] exI [of _ fa]) simp
qed

lemma HSMM_wrapper:
  assumes "HSMM_resample_A super R s tc g = Inr (s', g')" "0 < n"
    and "\<And>s1 g1. super R s tc g = Inr (s1, g1) \<Longrightarrow>
           \<exists>a. s1 = s\<lparr>self_A := Some a\<rparr> \<and> square n a \<and> list_all stochastic_row a"
  shows "\<exists>a fa. s' = s\<lparr>self_A := Some a, fullA := Some fa\<rparr> \<and> square n a \<and>
           list_all stochastic_row a \<and> square n fa \<and> (\<forall>i<n. a ! i ! i = 0)"
proof -
  from assms(1) obtain s1 g1 where su: "super R s tc g = Inr (s1, g1)"
    by (auto simp: HSMM_resample_A_def and_then_eq_Inr)
  from assms(3) [OF su] obtain fa where s1: "s1 = s\<lparr>self_A := Some fa\<rparr>"
    and sq: "square n fa" and st: "list_all stochastic_row fa" by blast
  let ?z = "zero_flat_stride fa"
  from assms(1) su s1 obtain a' where
    dv: "divide_rows ?z (map sum_list ?z) = Inr a'"
    and s': "s' = s1\<lparr>fullA := Some fa, self_A := Some a'\<rparr>"
    by (auto simp: HSMM_resample_A_def and_then_eq_Inr getattr_def Let_def)
  have nn: "\<forall>row \<in> set ?z. \<forall>x \<in> set row. 0 \<le> x"
    unfolding zero_flat_stride_square [OF sq]
    by (rule tabulate_nonneg) (simp add: stochastic_nonneg [OF st sq])
  have sqz: "square n ?z"
    unfolding zero_flat_stride_square [OF sq] by (rule square_tabulate)
  from normalize_rows [OF dv sqz assms(2) nn] have
    e: "a' = map (\<lambda>row. map (\<lambda>x. x / sum_list row) row) ?z"
    and r: "square n a'" "list_all stochastic_row a'"
    by blast+
  have "a' ! i ! i = 0" if "i < n" for i
  proof -
    have "?z ! i ! i = 0" using that by (simp add: zero_flat_stride_square [OF sq])
    moreover have "length ?z = n" "length (?z ! i) = n"
      using sqz that by (simp_all add: square_iff)
    ultimately show ?thesis using that by (simp add: e)
  qed
  then show ?thesis using s' s1 sq r by (intro exI [of _ a'] exI [of _ fa]) simp
qed


lemma resampled_stateI:
  assumes "beta s = Some b" "length b = state_dim s" "stochastic_row b"
    and "self_A s = Some a" "square (state_dim s) a" "list_all stochastic_row a"
    and "semi_markov (klass s) \<Longrightarrow> \<forall>i < state_dim s. a ! i ! i = 0"
    and "semi_markov (klass s) \<or> left_to_right (klass s) \<Longrightarrow>
           \<exists>fa. fullA s = Some fa \<and> square (state_dim s) fa"
  shows "resampled_state s"
  using assms by (auto simp: resampled_state_def list_all_iff)

lemma kappa_aug:
  assumes "square n tc" "0 < n"
  shows "\<exists>aug. add_kappa_diag k tc = Inr aug \<and> square n aug"
  using add_kappa_diag_square [OF assms, of k] square_tabulate by simp

lemma sticky_A_inv:
  assumes "Sticky_resample_A HDPHMM_resample_A R s tc g = Inr (s', g')" "sampler_contract R"
    and "square n tc" "0 < n" "beta s = Some b" "length b = n"
  shows "\<exists>a. s' = s\<lparr>self_A := Some a\<rparr> \<and> square n a \<and> list_all stochastic_row a"
proof -
  from kappa_aug [OF assms(3,4)] obtain aug where
    a: "add_kappa_diag (kappa s) tc = Inr aug" and sq: "square n aug" by blast
  from assms(1) a have "HDPHMM_resample_A R s aug g = Inr (s', g')"
    by (simp add: Sticky_resample_A_def)
  from base_resample_A_inv [OF this assms(2) sq assms(4-6)] show ?thesis .
qed

lemma resample_A_inv:
  assumes "resample_A R s tc g = Inr (s', g')" "sampler_contract R"
    and "square (state_dim s) tc" "0 < state_dim s"
    and "beta s = Some b" "length b = state_dim s" "stochastic_row b"
  shows "resampled_state s' \<and> state_dim s' = state_dim s \<and> klass s' = klass s"
proof -
  let ?n = "state_dim s"
  consider (base) "resample_A R s = HDPHMM_resample_A R s"
      "\<not> semi_markov (klass s)" "\<not> left_to_right (klass s)"
    | (sticky) "resample_A R s = Sticky_resample_A HDPHMM_resample_A R s"
      "\<not> semi_markov (klass s)" "\<not> left_to_right (klass s)"
    | (ltr) "resample_A R s = LTR_resample_A HDPHMM_resample_A R s" "\<not> semi_markov (klass s)"
    | (sltr) "resample_A R s
               = StickyLTR_resample_A (LTR_resample_A (Sticky_resample_A HDPHMM_resample_A)) R s"
      "\<not> semi_markov (klass s)"
    | (hsmm) "resample_A R s = HSMM_resample_A HDPHMM_resample_A R s"
    | (none) "resample_A R s tc g = Inl AttributeError"
    by (cases "klass s") (simp_all add: resample_A_def semi_markov_def left_to_right_def)
  then show ?thesis
  proof cases
    case base
    with assms(1) have "HDPHMM_resample_A R s tc g = Inr (s', g')" by simp
    from base_resample_A_inv [OF this assms(2-6)] obtain a where
      "s' = s\<lparr>self_A := Some a\<rparr>" "square ?n a" "list_all stochastic_row a" by blast
    then show ?thesis using base(2,3) assms(5-7)
      by (intro conjI resampled_stateI [of s' b a]) simp_all
  next
    case sticky
    with assms(1) have "Sticky_resample_A HDPHMM_resample_A R s tc g = Inr (s', g')" by simp
    from sticky_A_inv [OF this assms(2-6)] obtain a where
      "s' = s\<lparr>self_A := Some a\<rparr>" "square ?n a" "list_all stochastic_row a" by blast
    then show ?thesis using sticky(2,3) assms(5-7)
      by (intro conjI resampled_stateI [of s' b a]) simp_all
  next
    case ltr
    with assms(1) have r: "LTR_resample_A HDPHMM_resample_A R s tc g = Inr (s', g')" by simp
    have "\<exists>a fa. s' = s\<lparr>self_A := Some a, fullA := Some fa\<rparr> \<and> square ?n a \<and>
           list_all stochastic_row a \<and> square ?n fa"
      by (rule LTR_wrapper [OF r assms(4)]) (rule base_resample_A_inv [OF _ assms(2-6)])
    then obtain a fa where
      "s' = s\<lparr>self_A := Some a, fullA := Some fa\<rparr>" "square ?n a" "list_all stochastic_row a"
      "square ?n fa" by blast
    then show ?thesis using ltr(2) assms(5-7)
      by (intro conjI resampled_stateI [of s' b a]) simp_all
  next
    case sltr
    from kappa_aug [OF assms(3,4)] obtain aug where
      a: "add_kappa_diag (kappa s) tc = Inr aug" and sq: "square ?n aug" by blast
    from assms(1) sltr(1) a have
      r: "LTR_resample_A (Sticky_resample_A HDPHMM_resample_A) R s aug g = Inr (s', g')"
      by (simp add: StickyLTR_resample_A_def)
    have "\<exists>a fa. s' = s\<lparr>self_A := Some a, fullA := Some fa\<rparr> \<and> square ?n a \<and>
           list_all stochastic_row a \<and> square ?n fa"
      by (rule LTR_wrapper [OF r assms(4)]) (rule sticky_A_inv [OF _ assms(2) sq assms(4-6)])
    then obtain a fa where
      "s' = s\<lparr>self_A := Some a, fullA := Some fa\<rparr>" "square ?n a" "list_all stochastic_row a"
      "square ?n fa" by blast
    then show ?thesis using sltr(2) assms(5-7)
      by (intro conjI resampled_stateI [of s' b a]) simp_all
  next
    case hsmm
    with assms(1) have r: "HSMM_resample_A HDPHMM_resample_A R s tc g = Inr (s', g')" by simp
    have "\<exists>a fa. s' = s\<lparr>self_A := Some a, fullA := Some fa\<rparr> \<and> square ?n a \<and>
           list_all stochastic_row a \<and> square ?n fa \<and> (\<forall>i < ?n. a ! i ! i = 0)"
      by (rule HSMM_wrapper [OF r assms(4)]) (rule base_resample_A_inv [OF _ assms(2-6)])
    then obtain a fa where
      "s' = s\<lparr>self_A := Some a, fullA := Some fa\<rparr>" "square ?n a" "list_all stochastic_row a"
      "square ?n fa" "\<forall>i < ?n. a ! i ! i = 0" by blast
    then show ?thesis using assms(5-7)
      by (intro conjI resampled_stateI [of s' b a]) simp_all
  next
    case none
    with assms(1) show ?thesis by simp
  qed
qed

lemma HDPHMM_resample_inv:
  assumes "HDPHMM_resample R s sl g = Inr (s', g')" "sampler_contract R"
  shows "resampled_state s' \<and> state_dim s' = state_dim s \<and> klass s' = klass s"
proof -
  from assms(1) obtain tc s1 g1 m s2 g2 s3 g3 where
    c: "count_transitions R s sl g = Inr (tc, s1, g1)"
    and gm: "HDPHMM_get_m R s1 tc g1 = Inr (m, s2, g2)"
    and rb: "resample_beta R s2 m g2 = Inr (s3, g3)"
    and rA: "resample_A R s3 (to_float tc) g3 = Inr (s', g')"
    by (auto simp: HDPHMM_resample_def and_then_eq_Inr)
  from count_transitions_Inr [OF c] have sq: "square (state_dim s) tc"
    and s1: "s1 = s\<lparr>trans_counts := Some tc\<rparr>" by auto
  from get_m_square [OF gm] get_m_Inr [OF gm] have sqm: "square (state_dim s1) m"
    and s2: "s2 = s1\<lparr>self_m := Some m\<rparr>" by auto
  have f2: "state_dim s2 = state_dim s" "klass s2 = klass s" by (simp_all add: s1 s2)
  from resample_beta_inv [OF rb assms(2)] sqm s2 obtain b where
    f3: "state_dim s3 = state_dim s2" "klass s3 = klass s2" "0 < state_dim s2"
    and b: "beta s3 = Some b" "length b = state_dim s2" "stochastic_row b"
    by auto
  have sqf: "square (state_dim s3) (to_float tc)"
    using sq f2 f3 by (simp add: to_float_def square_def list_all_iff)
  from resample_A_inv [OF rA assms(2) sqf _ b(1) _ b(3)] f2 f3 b(2) show ?thesis by simp
qed

lemma HSMM_resample_inv:
  assumes "HSMM_resample R s sl g = Inr (s', g')" "sampler_contract R"
  shows "resampled_state s' \<and> state_dim s' = state_dim s \<and> klass s' = klass s"
proof -
  from assms(1) obtain tc s1 g1 aug s1' g1' m s2 g2 s3 g3 where
    c: "count_transitions R s (states_noreps sl) g = Inr (tc, s1, g1)"
    and au: "HSMM_augment_data R s1 tc g1 = Inr (aug, s1', g1')"
    and gm: "HDPHMM_get_m R s1' aug g1' = Inr (m, s2, g2)"
    and rb: "resample_beta R s2 m g2 = Inr (s3, g3)"
    and rA: "resample_A R s3 (to_float aug) g3 = Inr (s', g')"
    by (auto simp: HSMM_resample_def and_then_eq_Inr)
  from count_transitions_Inr [OF c] have sq: "square (state_dim s) tc"
    and s1: "s1 = s\<lparr>trans_counts := Some tc\<rparr>" by auto
  from augment_data_Inr [OF au sq] have sqa: "square (state_dim s) aug"
    and s1': "s1' = s1\<lparr>trans_counts := Some aug\<rparr>" by auto
  from get_m_square [OF gm] get_m_Inr [OF gm] have sqm: "square (state_dim s1') m"
    and s2: "s2 = s1'\<lparr>self_m := Some m\<rparr>" by auto
  have f2: "state_dim s2 = state_dim s" "klass s2 = klass s" by (simp_all add: s1 s1' s2)
  from resample_beta_inv [OF rb assms(2)] sqm s2 obtain b where
    f3: "state_dim s3 = state_dim s2" "klass s3 = klass s2" "0 < state_dim s2"
    and b: "beta s3 = Some b" "length b = state_dim s2" "stochastic_row b"
    by auto
  have sqf: "square (state_dim s3) (to_float aug)"
    using sqa f2 f3 by (simp add: to_float_def square_def list_all_iff)
  from resample_A_inv [OF rA assms(2) sqf _ b(1) _ b(3)] f2 f3 b(2) show ?thesis by simp
qed

lemma resampled_state_cong:
  assumes "beta s' = beta s" "self_A s' = self_A s" "fullA s' = fullA s"
    and "state_dim s' = state_dim s" "klass s' = klass s"
  shows "resampled_state s' = resampled_state s"
  unfolding resampled_state_def assms ..

lemma Conc_resample_inv:
  assumes "Conc_resample R s g = Inr (s', g')" "resampled_state s"
  shows "resampled_state s' \<and> state_dim s' = state_dim s \<and> klass s' = klass s"
proof -
  from conc_resample_Inr [OF assms(1)] obtain ao go where
    "s' = s\<lparr>alpha_obj := ao, alpha := concentration ao * real (state_dim s),
                           gamma_obj := go, gamma := concentration go * real (state_dim s)\<rparr>"
    by blast
  then have "beta s' = beta s" "self_A s' = self_A s" "fullA s' = fullA s"
    "state_dim s' = state_dim s" "klass s' = klass s"
    by simp_all
  then show ?thesis using assms(2) resampled_state_cong [of s' s] by simp
qed

lemma resample_call_invariants:
  assumes "sampler_contract R" and "resample R self states_list g = Inr (self', g')"
    and "klass self \<noteq> ConcentrationResampling"
  shows "resampled_state self' \<and> state_dim self' = state_dim self \<and> klass self' = klass self"
proof -
  consider (hmm) "resample R self = HDPHMM_resample R self"
    | (hsmm) "resample R self = HSMM_resample R self"
    | (hmmc) "resample R self = ConcCoupled_resample HDPHMM_resample R self"
    | (hsmmc) "resample R self = ConcCoupled_resample HSMM_resample R self"
    | (stc) "resample R self = StickyConc_resample HDPHMM_resample R self"
    using assms(3) by (cases "klass self") (simp_all add: resample_def)
  then show ?thesis
  proof cases
    case hmm
    with assms(2) have "HDPHMM_resample R self states_list g = Inr (self', g')" by simp
    from HDPHMM_resample_inv [OF this assms(1)] show ?thesis .
  next
    case hsmm
    with assms(2) have "HSMM_resample R self states_list g = Inr (self', g')" by simp
    from HSMM_resample_inv [OF this assms(1)] show ?thesis .
  next
    case hmmc
    with assms(2) obtain s1 g1 where
      a: "HDPHMM_resample R self states_list g = Inr (s1, g1)"
      and b: "Conc_resample R s1 g1 = Inr (self', g')"
      by (auto simp: ConcCoupled_resample_def and_then_eq_Inr)
    from HDPHMM_resample_inv [OF a assms(1)] Conc_resample_inv [OF b] show ?thesis by simp
  next
    case hsmmc
    with assms(2) obtain s1 g1 where
      a: "HSMM_resample R self states_list g = Inr (s1, g1)"
      and b: "Conc_resample R s1 g1 = Inr (self', g')"
      by (auto simp: ConcCoupled_resample_def and_then_eq_Inr)
    from HSMM_resample_inv [OF a assms(1)] Conc_resample_inv [OF b] show ?thesis by simp
  next
    case stc
    with assms(2) obtain s1 g1 s2 g2 r k where
      a: "HDPHMM_resample R self states_list g = Inr (s1, g1)"
      and b: "Conc_resample R s1 g1 = Inr (s2, g2)"
      and c: "self' = s2\<lparr>rho := r, kappa := k\<rparr>"
      by (auto simp: StickyConc_resample_def and_then_eq_Inr)
    from HDPHMM_resample_inv [OF a assms(1)] Conc_resample_inv [OF b]
    have "resampled_state s2 \<and> state_dim s2 = state_dim self \<and> klass s2 = klass self" by simp
    moreover have "beta self' = beta s2" "self_A self' = self_A s2" "fullA self' = fullA s2"
      "state_dim self' = state_dim s2" "klass self' = klass s2"
      by (simp_all add: c)
    ultimately show ?thesis using resampled_state_cong [of self' s2] by simp
  qed
qed


lemma sum_list_positive:
  "ps \<noteq> [] \<Longrightarrow> \<forall>p \<in> set ps. (0::real) < p \<Longrightarrow> 0 < sum_list ps"
proof (induction ps)
  case Nil
  then show ?case by simp
next
  case (Cons p ps)
  then show ?case by (cases "ps = []") (auto intro: add_pos_pos)
qed

lemma det_env_contract: "sampler_contract det_env"
proof -
  have d: "length b = length ps \<and> stochastic_row b"
    if "np_dirichlet det_env ps g = Inr (b, g')" for ps g b g'
  proof -
    from that have pos: "\<forall>p \<in> set ps. 0 < p" and ne: "ps \<noteq> []"
      and b: "b = map (\<lambda>p. p / sum_list ps) ps"
      by (auto simp: det_env_def list_ex_iff not_le split: if_splits)
    have "0 < sum_list ps"
      using ne pos by (rule sum_list_positive)
    then show ?thesis
      using pos unfolding b by (intro conjI stochastic_normalised) (auto intro: less_imp_le)
  qed
  have "0 \<le> x" if "stats_gamma_rvs1 det_env a g = Inr (x, g')" for a g x g'
    using that by (auto simp: det_env_def split: if_splits)
  with d show ?thesis unfolding sampler_contract_def by blast
qed

lemma semi_markov_one_state_never_returns:
  assumes "sampler_contract R" "semi_markov (klass self)" "state_dim self = 1"
  shows "resample R self states_list g \<noteq> Inr (self', g')"
proof
  assume r: "resample R self states_list g = Inr (self', g')"
  have "klass self \<noteq> ConcentrationResampling"
    using assms(2) by (auto simp: semi_markov_def)
  from resample_call_invariants [OF assms(1) r this] assms(2,3) obtain a where
    sq: "square 1 a" and st: "list_all stochastic_row a" and z: "a ! 0 ! 0 = 0"
    by (auto simp: resampled_state_def split: option.splits)
  from sq obtain x where "a = [[x]]"
    by (cases a; cases "hd a") (auto simp: square_def)
  with st z show False by (simp add: stochastic_row_def)
qed

text \<open>With one state the argument of \<^verbatim>\<open>stats.gamma.rvs\<close> has one row. Where the library
  removes the unit axes of its result, \<^verbatim>\<open>self.A.sum(1)\<close> raises AxisError: no class
  gets through \<^verbatim>\<open>_resample_A\<close>.\<close>

lemma resample_A_one_row:
  assumes "rvs_drops_unit_axes R" "square 1 tc" "beta s = Some b" "length b = 1"
  shows "HDPHMM_resample_A R s tc g \<noteq> Inr (s', g')"
proof -
  from gamma_shape_Inr_square [OF assms(2,4), of s] obtain shape where
    "gamma_shape s b tc = Inr shape" "square 1 shape" by blast
  then show ?thesis
    using assms(1,3)
    by (auto simp: HDPHMM_resample_A_def getattr_def and_then_eq_Inr square_def)
qed

lemma one_state_axis_error:
  "resample det_env (self_ex\<lparr>state_dim := 1, beta := Some [1], self_A := Some [[1]]\<rparr>) [[0, 0]] 0
     = Inl AxisError"
  "resample det_env (self_ex\<lparr>klass := HDPHSMMTransitions, state_dim := 1, beta := Some [1],
      self_A := Some [[0]], fullA := Some [[1 / 2]]\<rparr>) [[0, 0]] 0 = Inl AxisError"
  "resample det_env (self_ex\<lparr>klass := LTRHDPHMMTransitions, state_dim := 1, beta := Some [1],
      self_A := Some [[1]], fullA := Some [[1]]\<rparr>) [[0, 0]] 0 = Inl AxisError"
  "resample det_env (self_ex\<lparr>klass := StickyHDPHMMTransitions, state_dim := 1, beta := Some [1],
      kappa := 1, self_A := Some [[1]]\<rparr>) [[0, 0]] 0 = Inl AxisError"
  by code_simp+

subsection \<open>Counting after the run-length collapse\<close>

text \<open>The adjacent pairs of a collapsed sequence are the adjacent pairs of the sequence
  with the pairs of two equal labels left out.\<close>

lemma adjacent_Cons2: "adjacent (x # y # r) = (x, y) # adjacent (y # r)"
  by (simp add: adjacent_def)

lemma adjacent_remdups_adj:
  "adjacent (remdups_adj xs) = filter (\<lambda>(a, b). a \<noteq> b) (adjacent xs)"
proof (induction xs rule: remdups_adj.induct)
  case 1
  then show ?case by (simp add: adjacent_def)
next
  case (2 x)
  then show ?case by (simp add: adjacent_def)
next
  case (3 x y xs)
  show ?case
  proof (cases "x = y")
    case True
    with 3 show ?thesis by (simp add: adjacent_Cons2)
  next
    case False
    define zs where "zs = tl (remdups_adj (y # xs))"
    have r: "remdups_adj (y # xs) = y # zs"
      unfolding zs_def by simp
    have l: "remdups_adj (x # y # xs) = x # y # zs"
      using False r by simp
    have "filter (\<lambda>(a, b). a \<noteq> b) (adjacent (x # y # xs))
        = (x, y) # filter (\<lambda>(a, b). a \<noteq> b) (adjacent (y # xs))"
      using False by (simp add: adjacent_Cons2)
    also have "\<dots> = (x, y) # adjacent (y # zs)"
      using 3(2) [OF False] r by simp
    also have "\<dots> = adjacent (remdups_adj (x # y # xs))"
      unfolding l by (simp add: adjacent_Cons2)
    finally show ?thesis by simp
  qed
qed

lemma collapsed_pairs:
  "concat (map adjacent (map remdups_adj sl))
     = filter (\<lambda>(a, b). a \<noteq> b) (concat (map adjacent sl))"
  by (induction sl) (simp_all add: adjacent_remdups_adj)

lemma count_list_filter:
  "count_list (filter P xs) y = (if P y then count_list xs y else 0)"
  by (induction xs) auto

lemma labels_in_range_collapsed:
  "labels_in_range L (map remdups_adj sl) = labels_in_range L sl"
  by (simp add: labels_in_range_def list_all_iff)

lemma remdups_adj_idem: "remdups_adj (remdups_adj xs) = remdups_adj xs"
  using distinct_adj_remdups_adj [of xs] by (simp add: distinct_adj_altdef)

lemma collapse_idem: "states_noreps (map remdups_adj sl) = states_noreps sl"
  by (simp add: states_noreps_remdups remdups_adj_idem)

lemma collapse_distinct_adj:
  "list_all distinct_adj sl \<Longrightarrow> states_noreps sl = sl"
  by (induction sl) (simp_all add: states_noreps_remdups distinct_adj_altdef)

lemma semi_markov_count_dispatch:
  assumes "semi_markov (klass self)"
  shows "count_transitions R self sl g =
     and_then (HDPHMM_count_transitions self sl) (\<lambda>(tc, self1). Inr (tc, self1, g))"
  using assms by (auto simp: count_transitions_def semi_markov_def)

lemma semi_markov_resample_dispatch:
  assumes "semi_markov (klass self)"
  shows "resample R self sl g =
     (if klass self = HDPHSMMTransitions then HSMM_resample R self sl g
      else ConcCoupled_resample HSMM_resample R self sl g)"
  using assms by (auto simp: resample_def semi_markov_def)

lemma HSMM_resample_claimed_collapsed:
  "HSMM_resample R self sl g = HSMM_resample_claimed R self (states_noreps sl) g"
  by (simp add: HSMM_resample_def HSMM_resample_claimed_def)

lemma collapsed_counts:
  assumes "semi_markov (klass self)" "labels_in_range (state_dim self) sl"
  shows "\<exists>tc. count_transitions R self (states_noreps sl) g
                 = Inr (tc, self\<lparr>trans_counts := Some tc\<rparr>, g) \<and>
           square (state_dim self) tc \<and>
           (\<forall>i < state_dim self. \<forall>j < state_dim self.
              tc ! i ! j = (if i = j then 0
                            else of_nat (count_list (concat (map adjacent sl)) (int i, int j))))"
proof -
  have "labels_in_range (state_dim self) (map remdups_adj sl)"
    using assms(2) by (simp add: labels_in_range_collapsed)
  from base_count [OF this] obtain tc where
    c: "HDPHMM_count_transitions self (map remdups_adj sl)
          = Inr (tc, self\<lparr>trans_counts := Some tc\<rparr>)"
    and sq: "square (state_dim self) tc"
    and v: "\<forall>i < state_dim self. \<forall>j < state_dim self.
       tc ! i ! j = of_nat (count_list (concat (map adjacent (map remdups_adj sl))) (int i, int j))"
    by blast
  have cnt: "count_list (concat (map adjacent (map remdups_adj sl))) p
      = (if fst p \<noteq> snd p then count_list (concat (map adjacent sl)) p else 0)" for p
    unfolding collapsed_pairs count_list_filter by (cases p) simp
  have "count_transitions R self (states_noreps sl) g = Inr (tc, self\<lparr>trans_counts := Some tc\<rparr>, g)"
    using c by (simp add: semi_markov_count_dispatch [OF assms(1)] states_noreps_remdups)
  moreover have "\<forall>i < state_dim self. \<forall>j < state_dim self.
              tc ! i ! j = (if i = j then 0
                            else of_nat (count_list (concat (map adjacent sl)) (int i, int j)))"
    using v unfolding cnt by simp
  ultimately show ?thesis using sq by blast
qed

subsection \<open>Counters that wrap around\<close>

text \<open>The cells of the count matrix are int32: a transition seen a multiple of \<open>2^32\<close>
  times leaves its cell at 0, and a count matrix with every cell so is that of the
  empty input.\<close>

lemma base_count_all_wrapped:
  assumes "labels_in_range (state_dim self) sl"
    and "\<forall>i < state_dim self. \<forall>j < state_dim self.
           (of_nat (count_list (concat (map adjacent sl)) (int i, int j)) :: int32) = 0"
  shows "HDPHMM_count_transitions self sl = HDPHMM_count_transitions self []"
proof -
  from base_count [OF assms(1)] obtain tc where
    c: "HDPHMM_count_transitions self sl = Inr (tc, self\<lparr>trans_counts := Some tc\<rparr>)"
    and sq: "square (state_dim self) tc"
    and v: "\<forall>i < state_dim self. \<forall>j < state_dim self.
              tc ! i ! j = of_nat (count_list (concat (map adjacent sl)) (int i, int j))"
    by blast
  have "tc = zeros (state_dim self)"
  proof (rule nth_equalityI)
    show "length tc = length (zeros (state_dim self))"
      using sq by (simp add: square_def zeros_def)
  next
    fix i assume "i < length tc"
    then have i: "i < state_dim self" using sq by (simp add: square_def)
    then have l: "length (tc ! i) = state_dim self" using sq by (simp add: square_iff)
    show "tc ! i = zeros (state_dim self) ! i"
    proof (rule nth_equalityI)
      show "length (tc ! i) = length (zeros (state_dim self) ! i)"
        using l i by (simp add: zeros_def)
    next
      fix j assume "j < length (tc ! i)"
      then have "j < state_dim self" using l by simp
      with i v assms(2) show "tc ! i ! j = zeros (state_dim self) ! i ! j"
        by (simp add: zeros_def)
    qed
  qed
  with c show ?thesis by (simp add: HDPHMM_count_transitions_def)
qed

lemma adjacent_replicate_pair:
  "concat (map adjacent (replicate n [a, b])) = replicate n (a, b)"
  by (induction n) (simp_all add: adjacent_def)

lemma count_list_replicate:
  "count_list (replicate n x) y = (if x = y then n else 0)"
  by (induction n) auto

lemma of_nat_2_32: "(of_nat (2 ^ 32) :: int32) = 0"
  by simp

lemma wrap_input_labels: "2 \<le> L \<Longrightarrow> labels_in_range L wrap_input"
  unfolding wrap_input_def labels_in_range_def list_all_iff by auto

lemma wrap_input_backward: "has_backward_transition wrap_input"
  unfolding wrap_input_def has_backward_transition_def list_ex_iff
  by (auto simp: adjacent_def)

lemma wrap_input_count:
  assumes "2 \<le> state_dim self"
  shows "HDPHMM_count_transitions self wrap_input = HDPHMM_count_transitions self []"
proof (rule base_count_all_wrapped [OF wrap_input_labels [OF assms]])
  have "concat (map adjacent wrap_input) = replicate (2 ^ 32) (1, 0)"
    unfolding wrap_input_def by (rule adjacent_replicate_pair)
  then show "\<forall>i < state_dim self. \<forall>j < state_dim self.
           (of_nat (count_list (concat (map adjacent wrap_input)) (int i, int j)) :: int32) = 0"
    by (simp add: count_list_replicate)
qed

lemma ltr_resample_by_count:
  assumes "klass self = LTRHDPHMMTransitions \<or> klass self = StickyLTRHDPHMMTransitions"
    and "HDPHMM_count_transitions self sl = HDPHMM_count_transitions self sl'"
  shows "count_transitions R self sl g = count_transitions R self sl' g"
    and "resample R self sl g = resample R self sl' g"
proof -
  show c: "count_transitions R self sl g = count_transitions R self sl' g"
    unfolding ltr_dispatch [OF assms(1)] LTR_count_transitions_def using assms(2) by simp
  have "resample R self = HDPHMM_resample R self"
    using assms(1) by (auto simp: resample_def)
  then show "resample R self sl g = resample R self sl' g"
    using c by (simp add: HDPHMM_resample_def)
qed

lemma wrap_input_pairs:
  "sum_list (map (\<lambda>states. length states - 1) wrap_input) = 2 ^ 32"
  by (simp add: wrap_input_def sum_list_replicate)


subsection \<open>C8: the Dirichlet parameter of the base beta step\<close>

text \<open>
  Claim C8. \<^verbatim>\<open>HDPHMMTransitions._resample_beta\<close> draws beta from the Dirichlet sampler
  with a parameter vector of length \<open>L = state_dim\<close> whose \<open>j\<close>-th entry is exactly
  \<open>gamma / L\<close> plus the sum of column \<open>j\<close> of the table-count matrix \<open>m\<close> plus the
  constant \<open>1/100\<close>; the draw becomes \<open>self.beta\<close> and nothing else changes.
\<close>

theorem resample_beta_dirichlet_parameter:
  assumes "length m = state_dim self" "\<forall>row \<in> set m. length row = state_dim self"
    and "0 < state_dim self"
  shows "HDPHMM_resample_beta R self m g =
     and_then
       (np_dirichlet R
          (map (\<lambda>j. gamma self / real (state_dim self)
                      + real_of_int (\<Sum>i \<in> {..<state_dim self}. sint (m ! i ! j)) + 1 / 100)
             [0..<state_dim self]) g)
       (\<lambda>(b, g1). Inr (self\<lparr>beta := Some b\<rparr>, g1))"
  using assms by (simp add: HDPHMM_resample_beta_def sum_axis0_nth [OF assms] o_def)

theorem resample_beta_dirichlet_parameter_witness:
  "length m_ex = state_dim self_ex \<and> list_all (\<lambda>row. length row = state_dim self_ex) m_ex \<and>
   0 < state_dim self_ex \<and>
   HDPHMM_resample_beta det_env self_ex m_ex 0 =
     Inr (self_ex\<lparr>beta := Some [351 / 802, 451 / 802]\<rparr>, 1)"
proof -
  have a: "length m_ex = state_dim self_ex"
    by (simp add: m_ex_def self_ex_def new_object_def)
  have b: "\<forall>row \<in> set m_ex. length row = state_dim self_ex"
    by (simp add: m_ex_def self_ex_def new_object_def)
  have c: "0 < state_dim self_ex"
    by (simp add: self_ex_def new_object_def)
  have n: "[0..<2] = [0, 1]"
    by (simp add: upt_rec)
  show ?thesis
    using resample_beta_dirichlet_parameter [OF a b c, of det_env 0]
    by (simp add: m_ex_def self_ex_def new_object_def det_env_def n lessThan_Suc numeral_2_eq_2)
qed

subsection \<open>C1: the sticky concentration-coupled resample does not recompute alpha\<close>

text \<open>
  Claim C1 says that after the transition update and the concentration resampler,
  \<^verbatim>\<open>StickyHDPHMMTransitionsConcResampling.resample\<close> draws \<open>rho\<close> from
  \<open>Beta(rho_a_0 + sum(m - newm), rho_b_0 + sum(newm))\<close> with the \<open>m\<close> and \<open>newm\<close> of the
  same sweep and then recomputes both \<open>alpha = (1-rho)*concentration*L\<close> and
  \<open>kappa = rho*concentration*L\<close>. The draw of \<open>rho\<close> and the update of \<open>kappa\<close> are as
  claimed. But \<open>alpha\<close> is not recomputed: it stays what
  \<^verbatim>\<open>ConcentrationResampling.resample\<close> assigned, \<open>concentration*L\<close>, so that after the
  call \<open>alpha + kappa = (1 + rho)*concentration*L\<close>. The class's own note (the
  concentration object holds alpha plus kappa, the member \<open>alpha\<close> is just alpha) and its
  constructor (\<open>alpha = (1-rho)*concentration*L\<close>) say what the claim says.
\<close>

theorem sticky_conc_resample_outcome:
  assumes "klass self = StickyHDPHMMTransitionsConcResampling"
    and "resample R self states_list g = Inr (self', g')"
  shows "\<exists>tc self1 g1 m self2 g2 nm g3.
     count_transitions R self states_list g = Inr (tc, self1, g1) \<and>
     HDPHMM_get_m R self1 tc g1 = Inr (m, self2, g2) \<and>
     self_m self' = Some m \<and> newm self' = Some nm \<and>
     np_beta R (rho_a_0 self + real_of_int (sum_all (msub m nm)))
       (rho_b_0 self + real_of_int (sum_all nm)) g3 = Inr (rho self', g') \<and>
     kappa self' = rho self' * concentration (alpha_obj self') * real (state_dim self) \<and>
     alpha self' = concentration (alpha_obj self') * real (state_dim self) \<and>
     alpha self' + kappa self'
       = (1 + rho self') * (concentration (alpha_obj self') * real (state_dim self))"
proof -
  have d: "resample R self = StickyConc_resample HDPHMM_resample R self"
    using assms(1) by (simp add: resample_def)
  have db: "resample_beta R s = Sticky_resample_beta HDPHMM_resample_beta R s"
    and dA: "resample_A R s = Sticky_resample_A HDPHMM_resample_A R s"
    if "klass s = StickyHDPHMMTransitionsConcResampling" for s
    using that by (simp_all add: resample_beta_def resample_A_def)
  have dc: "count_transitions R self states_list g
       = and_then (HDPHMM_count_transitions self states_list) (\<lambda>(tc, self1). Inr (tc, self1, g))"
    using assms(1) by (simp add: count_transitions_def)
  from assms(2) [unfolded d StickyConc_resample_def] obtain s4 g4 s5 g5 m nm r where
    base: "HDPHMM_resample R self states_list g = Inr (s4, g4)"
    and conc: "Conc_resample R s4 g4 = Inr (s5, g5)"
    and m: "self_m s5 = Some m" and nm: "newm s5 = Some nm"
    and be: "np_beta R (rho_a_0 s5 + real_of_int (sum_all (msub m nm)))
               (rho_b_0 s5 + real_of_int (sum_all nm)) g5 = Inr (r, g')"
    and s': "self' = s5\<lparr>rho := r, kappa := r * concentration (alpha_obj s5) * real (state_dim s5)\<rparr>"
    by (auto simp: and_then_eq_Inr getattr_def split: option.splits)
  from base [unfolded HDPHMM_resample_def] obtain tc s1 g1 m' s2 g2 s3 g3 where
    c: "count_transitions R self states_list g = Inr (tc, s1, g1)"
    and gm: "HDPHMM_get_m R s1 tc g1 = Inr (m', s2, g2)"
    and rb: "resample_beta R s2 m' g2 = Inr (s3, g3)"
    and rA: "resample_A R s3 (to_float tc) g3 = Inr (s4, g4)"
    by (auto simp: and_then_eq_Inr)
  from c [unfolded dc] have s1: "s1 = self\<lparr>trans_counts := Some tc\<rparr>"
    by (auto simp: and_then_eq_Inr dest: base_count_Inr)
  from get_m_Inr [OF gm] have s2: "s2 = s1\<lparr>self_m := Some m'\<rparr>" .
  have k2: "klass s2 = StickyHDPHMMTransitionsConcResampling"
    using assms(1) by (simp add: s1 s2)
  from rb [unfolded db [OF k2]] obtain nm' b where s3: "s3 = s2\<lparr>newm := Some nm', beta := Some b\<rparr>"
    by (auto dest: sticky_resample_beta_Inr)
  have k3: "klass s3 = StickyHDPHMMTransitionsConcResampling"
    using k2 by (simp add: s3)
  from rA [unfolded dA [OF k3]] obtain a where s4: "s4 = s3\<lparr>self_A := Some a\<rparr>"
    by (auto dest: sticky_resample_A_Inr)
  from conc_resample_Inr [OF conc] obtain ao go where
    s5: "s5 = s4\<lparr>alpha_obj := ao, alpha := concentration ao * real (state_dim s4),
                  gamma_obj := go, gamma := concentration go * real (state_dim s4)\<rparr>"
    by blast
  have mm: "m = m'" using m by (simp add: s5 s4 s3 s2)
  have f: "rho_a_0 s5 = rho_a_0 self" "rho_b_0 s5 = rho_b_0 self" "state_dim s5 = state_dim self"
    "state_dim s4 = state_dim self"
    by (simp_all add: s5 s4 s3 s2 s1)
  have "self_m self' = Some m" "newm self' = Some nm" "rho self' = r"
    "kappa self' = rho self' * concentration (alpha_obj self') * real (state_dim self)"
    "alpha self' = concentration (alpha_obj self') * real (state_dim self)"
    using m nm f by (simp_all add: s' s5)
  moreover from this have "alpha self' + kappa self'
       = (1 + rho self') * (concentration (alpha_obj self') * real (state_dim self))"
    by (simp add: algebra_simps)
  ultimately show ?thesis
    using c gm be f unfolding mm
    by (intro exI [of _ tc] exI [of _ s1] exI [of _ g1] exI [of _ m'] exI [of _ s2] exI [of _ g2]
          exI [of _ nm] exI [of _ g5]) simp
qed


text \<open>
  An instance as the constructor leaves it (\<open>alpha + kappa = concentration*L = 1\<close>,
  \<open>rho = 1/2\<close>), resampled on \<open>[[0, 0, 1, 1, 0]]\<close>: afterwards \<open>rho = kappa = 1/6\<close> and
  \<open>alpha = 1\<close>, so \<open>alpha + kappa = 7/6\<close>.
\<close>



theorem sticky_conc_resample_outcome_witness:
  "klass sticky_conc_ex = StickyHDPHMMTransitionsConcResampling \<and>
   alpha sticky_conc_ex + kappa sticky_conc_ex
     = concentration (alpha_obj sticky_conc_ex) * real (state_dim sticky_conc_ex) \<and>
   (\<exists>self'. resample det_env sticky_conc_ex [[0, 0, 1, 1, 0]] 0 = Inr (self', 14) \<and>
      rho self' = 1 / 6 \<and> kappa self' = 1 / 6 \<and> alpha self' = 1 \<and>
      concentration (alpha_obj self') * real (state_dim self') = 1 \<and>
      alpha self' + kappa self'
        = (1 + rho self') * (concentration (alpha_obj self') * real (state_dim sticky_conc_ex)) \<and>
      alpha self' + kappa self' \<noteq> concentration (alpha_obj self') * real (state_dim self') \<and>
      alpha self' \<noteq> (1 - rho self') * concentration (alpha_obj self') * real (state_dim self'))"
proof -
  have k: "klass sticky_conc_ex = StickyHDPHMMTransitionsConcResampling"
    by (simp add: sticky_conc_ex_def)
  have run: "resample det_env sticky_conc_ex [[0, 0, 1, 1, 0]] 0
     = Inr (sticky_conc_ex\<lparr>alpha := 1, gamma := 1, kappa := 1 / 6, rho := 1 / 6,
              self_A := Some [[88 / 151, 63 / 151], [63 / 151, 88 / 151]],
              trans_counts := Some [[1, 1], [1, 1]], self_m := Some [[1, 1], [1, 1]],
              newm := Some [[1, 1], [1, 1]]\<rparr>, 14)"
    by code_simp
  show ?thesis
    using sticky_conc_resample_outcome [OF k run] k run
    by (simp add: sticky_conc_ex_def self_ex_def new_object_def)
qed
subsection \<open>C2: the semi-Markov resample collapses the runs itself\<close>

text \<open>
  Claim C2, as amended. The claim says that the semi-Markov \<^verbatim>\<open>resample\<close> counts the
  transitions of the caller's sequences exactly as given and performs no run-length
  collapse of its own. The source applies \<^verbatim>\<open>rle\<close> to every caller sequence first.
  For the two semi-Markov classes, \<^verbatim>\<open>resample\<close> on any input is \<^verbatim>\<open>resample\<close> on the
  input with every run of equal labels collapsed to one label (\<open>remdups_adj\<close>); it is
  the method the claim describes (\<open>semi_markov_resample_claimed\<close>) run on the collapsed
  sequences, and on input without two consecutive equal labels it is that method run
  on the input as given. When the labels are state indices, the
  matrix it counts has in cell \<open>(i, j)\<close>, \<open>i \<noteq> j\<close>, the number (mod \<open>2^32\<close>) of adjacent
  pairs \<open>i \<rightarrow> j\<close> of the caller's sequences, and 0 on the diagonal: a self-transition
  of the caller's input is never counted.
\<close>

theorem hsmm_resample_collapses_runs:
  assumes "semi_markov (klass self)"
  shows "resample R self stateseqs g = resample R self (map remdups_adj stateseqs) g \<and>
         resample R self stateseqs g
           = semi_markov_resample_claimed R self (map remdups_adj stateseqs) g \<and>
         (list_all distinct_adj stateseqs \<longrightarrow>
            resample R self stateseqs g = semi_markov_resample_claimed R self stateseqs g) \<and>
         (labels_in_range (state_dim self) stateseqs \<longrightarrow>
            (\<exists>tc. count_transitions R self (states_noreps stateseqs) g
                    = Inr (tc, self\<lparr>trans_counts := Some tc\<rparr>, g) \<and>
               square (state_dim self) tc \<and>
               (\<forall>i < state_dim self. \<forall>j < state_dim self.
                  tc ! i ! j =
                    (if i = j then 0
                     else of_nat (count_list (concat (map adjacent stateseqs)) (int i, int j))))))"
proof -
  have h: "HSMM_resample R self stateseqs g = HSMM_resample R self (map remdups_adj stateseqs) g"
    by (simp add: HSMM_resample_def collapse_idem)
  have a: "resample R self stateseqs g = resample R self (map remdups_adj stateseqs) g"
    unfolding semi_markov_resample_dispatch [OF assms] ConcCoupled_resample_def h ..
  have k: "klass self = HDPHSMMTransitions \<or> klass self = HDPHSMMTransitionsConcResampling"
    using assms by (simp add: semi_markov_def)
  have b: "resample R self stateseqs g
             = semi_markov_resample_claimed R self (map remdups_adj stateseqs) g"
    using k
    by (auto simp: semi_markov_resample_dispatch [OF assms] semi_markov_resample_claimed_def
          ConcCoupled_resample_def HSMM_resample_claimed_collapsed states_noreps_remdups)
  have c: "resample R self stateseqs g = semi_markov_resample_claimed R self stateseqs g"
    if "list_all distinct_adj stateseqs"
    using k collapse_distinct_adj [OF that]
    by (auto simp: semi_markov_resample_dispatch [OF assms] semi_markov_resample_claimed_def
          ConcCoupled_resample_def HSMM_resample_claimed_collapsed)
  from a b c collapsed_counts [OF assms, of stateseqs R g] show ?thesis by blast
qed

theorem hsmm_resample_collapses_runs_witness:
  "semi_markov (klass hsmm_ex) \<and>
   list_all distinct_adj [[0, 1, 0 :: int]] \<and>
   labels_in_range (state_dim hsmm_ex) [[0, 0, 1]] \<and>
   resample det_env hsmm_ex [[0, 0, 1]] 0 = resample det_env hsmm_ex [[0, 1]] 0 \<and>
   resample det_env hsmm_ex [[0, 0, 1]] 0 = semi_markov_resample_claimed det_env hsmm_ex [[0, 1]] 0 \<and>
   resample det_env hsmm_ex [[0, 1, 0]] 0
     = semi_markov_resample_claimed det_env hsmm_ex [[0, 1, 0]] 0 \<and>
   (\<exists>tc. count_transitions det_env hsmm_ex (states_noreps [[0, 0, 1]]) 0
            = Inr (tc, hsmm_ex\<lparr>trans_counts := Some tc\<rparr>, 0) \<and>
      square 2 tc \<and> tc ! 0 ! 0 = 0 \<and> tc ! 0 ! 1 = 1)"
proof -
  have k: "klass hsmm_ex = HDPHSMMTransitions"
    by (simp add: hsmm_ex_def)
  then have sm: "semi_markov (klass hsmm_ex)"
    by (simp add: semi_markov_def)
  have n: "state_dim hsmm_ex = 2"
    by (simp add: hsmm_ex_def self_ex_def new_object_def)
  have d: "list_all distinct_adj [[0, 1, 0 :: int]]"
    by simp
  have r: "labels_in_range (state_dim hsmm_ex) [[0, 0, 1]]"
    by (simp add: labels_in_range_def n)
  note t1 = hsmm_resample_collapses_runs [OF sm, of det_env "[[0, 0, 1]]" 0]
  note t2 = hsmm_resample_collapses_runs [OF sm, of det_env "[[0, 1, 0]]" 0]
  have m: "map remdups_adj [[0, 0, 1 :: int]] = [[0, 1]]"
    by simp
  from t1 [unfolded m]
  have e1: "resample det_env hsmm_ex [[0, 0, 1]] 0 = resample det_env hsmm_ex [[0, 1]] 0"
    and e2: "resample det_env hsmm_ex [[0, 0, 1]] 0
               = semi_markov_resample_claimed det_env hsmm_ex [[0, 1]] 0"
    by blast+
  from t2 d have e3: "resample det_env hsmm_ex [[0, 1, 0]] 0
                          = semi_markov_resample_claimed det_env hsmm_ex [[0, 1, 0]] 0"
    by blast
  from t1 r obtain tc where
    c: "count_transitions det_env hsmm_ex (states_noreps [[0, 0, 1]]) 0
          = Inr (tc, hsmm_ex\<lparr>trans_counts := Some tc\<rparr>, 0)"
    and sq: "square (state_dim hsmm_ex) tc"
    and v: "\<forall>i < state_dim hsmm_ex. \<forall>j < state_dim hsmm_ex.
              tc ! i ! j =
                (if i = j then 0
                 else of_nat (count_list (concat (map adjacent [[0, 0, 1]])) (int i, int j)))"
    by blast
  from v have "tc ! 0 ! 0 = 0" "tc ! 0 ! 1 = 1"
    by (simp_all add: n adjacent_def)
  with c sq n have "\<exists>tc. count_transitions det_env hsmm_ex (states_noreps [[0, 0, 1]]) 0
            = Inr (tc, hsmm_ex\<lparr>trans_counts := Some tc\<rparr>, 0) \<and>
      square 2 tc \<and> tc ! 0 ! 0 = 0 \<and> tc ! 0 ! 1 = 1"
    by auto
  with sm d r e1 e2 e3 show ?thesis by blast
qed

text \<open>
  The claim as stated fails on \<open>[[0, 0, 1]]\<close>. Counted as given, the sequence has the
  self-transition \<open>0 \<rightarrow> 0\<close>, and the method the claim describes ends with the counts
  \<open>[[5, 1], [0, 0]]\<close>; the count inside \<^verbatim>\<open>resample\<close> leaves the self-transition out,
  and \<^verbatim>\<open>resample\<close> ends with \<open>[[2, 1], [0, 0]]\<close>.
\<close>

theorem hsmm_resample_as_given_counterexample:
  "resample det_env hsmm_ex [[0, 0, 1]] 0
     = Inr (hsmm_ex\<lparr>self_A := Some [[0, 1], [1, 0]],
              fullA := Some [[251 / 402, 151 / 402], [1 / 2, 1 / 2]],
              trans_counts := Some [[2, 1], [0, 0]], self_m := Some [[1, 1], [0, 0]]\<rparr>, 9) \<and>
   semi_markov_resample_claimed det_env hsmm_ex [[0, 0, 1]] 0
     = Inr (hsmm_ex\<lparr>self_A := Some [[0, 1], [1, 0]],
              fullA := Some [[551 / 702, 151 / 702], [1 / 2, 1 / 2]],
              trans_counts := Some [[5, 1], [0, 0]], self_m := Some [[1, 1], [0, 0]]\<rparr>, 12) \<and>
   count_transitions det_env hsmm_ex (states_noreps [[0, 0, 1]]) 0
     = Inr ([[0, 1], [0, 0]], hsmm_ex\<lparr>trans_counts := Some [[0, 1], [0, 0]]\<rparr>, 0) \<and>
   count_transitions det_env hsmm_ex [[0, 0, 1]] 0
     = Inr ([[1, 1], [0, 0]], hsmm_ex\<lparr>trans_counts := Some [[1, 1], [0, 0]]\<rparr>, 0) \<and>
   resample det_env hsmm_ex [[0, 0, 1]] 0 \<noteq> semi_markov_resample_claimed det_env hsmm_ex [[0, 0, 1]] 0"
proof -
  have a: "resample det_env hsmm_ex [[0, 0, 1]] 0
     = Inr (hsmm_ex\<lparr>self_A := Some [[0, 1], [1, 0]],
              fullA := Some [[251 / 402, 151 / 402], [1 / 2, 1 / 2]],
              trans_counts := Some [[2, 1], [0, 0]], self_m := Some [[1, 1], [0, 0]]\<rparr>, 9)"
    by code_simp
  have b: "semi_markov_resample_claimed det_env hsmm_ex [[0, 0, 1]] 0
     = Inr (hsmm_ex\<lparr>self_A := Some [[0, 1], [1, 0]],
              fullA := Some [[551 / 702, 151 / 702], [1 / 2, 1 / 2]],
              trans_counts := Some [[5, 1], [0, 0]], self_m := Some [[1, 1], [0, 0]]\<rparr>, 12)"
    by code_simp
  have c: "count_transitions det_env hsmm_ex (states_noreps [[0, 0, 1]]) 0
     = Inr ([[0, 1], [0, 0]], hsmm_ex\<lparr>trans_counts := Some [[0, 1], [0, 0]]\<rparr>, 0)"
    by code_simp
  have d: "count_transitions det_env hsmm_ex [[0, 0, 1]] 0
     = Inr ([[1, 1], [0, 0]], hsmm_ex\<lparr>trans_counts := Some [[1, 1], [0, 0]]\<rparr>, 0)"
    by code_simp
  show ?thesis unfolding a b c d by simp
qed


subsection \<open>C3: the augmentation of the left-to-right counting step\<close>

text \<open>
  Claim C3, as amended. When the counting step of a left-to-right class returns (with an
  \<open>L\<close> by \<open>L\<close> \<open>fullA\<close>), then for every row \<open>i\<close>, with \<open>tc\<close> the base counts: the
  geometric sampler was called for \<open>f_i\<close> draws, \<open>f_i\<close> the sum of row \<open>i\<close> of \<open>tc\<close>, with the
  success parameter \<open>w_i\<close> = the sum of the entries \<open>i..L-1\<close> (the upper-triangular part) of
  row \<open>i\<close> of \<open>fullA\<close>; the sum of these draws was split by a multinomial draw whose
  probabilities are the entries \<open>0..i-1\<close> of row \<open>i\<close> of \<open>fullA\<close> (its strictly
  lower-triangular part) divided by their sum; and the split was written to the columns
  \<open>0..i-1\<close> of row \<open>i\<close>, the columns \<open>i..L-1\<close> keeping the base counts.
\<close>

theorem ltr_count_augmentation:
  assumes "klass self = LTRHDPHMMTransitions \<or> klass self = StickyLTRHDPHMMTransitions"
    and "count_transitions R self states_list g = Inr (tc', self', g')"
    and "fullA self = Some fa" and "square (state_dim self) fa" and "i < state_dim self"
  shows "\<exists>tc draws split g0 g1 g2.
     HDPHMM_count_transitions self states_list = Inr (tc, self\<lparr>trans_counts := Some tc\<rparr>) \<and>
     np_geometric R (\<Sum>j \<in> {i..<state_dim self}. fa ! i ! j)
       (\<Sum>j \<in> {..<state_dim self}. sint (tc ! i ! j)) g0 = Inr (draws, g1) \<and>
     np_multinomial R (sum_list draws)
       (map (\<lambda>j. fa ! i ! j / (\<Sum>j' \<in> {..<i}. fa ! i ! j')) [0..<i]) g1 = Inr (split, g2) \<and>
     tc' ! i = (if length split = i then map word_of_int split
                else replicate i (word_of_int (hd split))) @ drop i (tc ! i) \<and>
     trans_counts self' = Some tc'"
proof -
  let ?L = "state_dim self"
  from assms(2) obtain tc self1 where
    b: "HDPHMM_count_transitions self states_list = Inr (tc, self1)"
    and rest: "(if \<not> all_zero (tril_1 tc) then Inl AssertionError
          else let totalfrom = sum_axis1 tc
               in and_then (getattr (fullA self1)) (\<lambda>fa.
                  let totalweight = map sum_list (triu fa)
                  in and_then (foldE (LTR_row R fa totalfrom totalweight) [0..<length tc] (tc, g))
                       (\<lambda>(tc', g2). Inr (tc', self1\<lparr>trans_counts := Some tc'\<rparr>, g2))))
         = Inr (tc', self', g')"
    unfolding ltr_dispatch [OF assms(1)] LTR_count_transitions_def
    by (auto simp: and_then_eq_Inr)
  from base_count_Inr [OF b] have sq: "square ?L tc" and s1: "self1 = self\<lparr>trans_counts := Some tc\<rparr>"
    by auto
  have f1: "fullA self1 = Some fa" using s1 assms(3) by simp
  have lt: "length tc = ?L" using sq by (simp add: square_iff)
  from rest f1 have
    f: "foldE (LTR_row R fa (sum_axis1 tc) (map sum_list (triu fa))) [0..<?L] (tc, g) = Inr (tc', g')"
    and s': "self' = self1\<lparr>trans_counts := Some tc'\<rparr>"
    by (auto simp: getattr_def Let_def lt and_then_eq_Inr split: if_splits)
  from LTR_fold [OF f assms(4) sq order_refl] assms(5) obtain draws g0 g1 split g2 where
    ge: "np_geometric R (map sum_list (triu fa) ! i) (sum_axis1 tc ! i) g0 = Inr (draws, g1)"
    and mu: "np_multinomial R (sum_list draws)
          (map (\<lambda>j. fa ! i ! j / (\<Sum>j'<i. fa ! i ! j')) [0..<i]) g1 = Inr (split, g2)"
    and row: "tc' ! i = (if length split = i then map word_of_int split
                   else replicate i (word_of_int (hd split))) @ drop i (tc ! i)"
    by blast
  have "np_geometric R (\<Sum>j \<in> {i..<?L}. fa ! i ! j) (\<Sum>j \<in> {..<?L}. sint (tc ! i ! j)) g0
          = Inr (draws, g1)"
    using ge by (simp add: sum_triu_row [OF assms(4,5)] sum_axis1_nth [OF sq assms(5)])
  moreover have "HDPHMM_count_transitions self states_list = Inr (tc, self\<lparr>trans_counts := Some tc\<rparr>)"
    using b s1 by simp
  moreover have "trans_counts self' = Some tc'"
    using s' by simp
  ultimately show ?thesis using mu row
    by (intro exI [of _ tc] exI [of _ draws] exI [of _ split] exI [of _ g0] exI [of _ g1]
          exI [of _ g2]) simp
qed

theorem ltr_count_augmentation_witness:
  "(klass ltr_ex = LTRHDPHMMTransitions \<or> klass ltr_ex = StickyLTRHDPHMMTransitions) \<and>
   count_transitions det_env ltr_ex [[0, 0, 1, 1]] 0
     = Inr ([[1, 1], [2, 1]], ltr_ex\<lparr>trans_counts := Some [[1, 1], [2, 1]]\<rparr>, 4) \<and>
   fullA ltr_ex = Some [[1 / 2, 1 / 2], [1 / 4, 3 / 4]] \<and>
   square (state_dim ltr_ex) [[1 / 2, 1 / 2], [1 / 4, 3 / 4 :: real]] \<and> 1 < state_dim ltr_ex \<and>
   (\<exists>tc draws split g0 g1 g2.
     HDPHMM_count_transitions ltr_ex [[0, 0, 1, 1]] = Inr (tc, ltr_ex\<lparr>trans_counts := Some tc\<rparr>) \<and>
     np_geometric det_env (\<Sum>j \<in> {1..<state_dim ltr_ex}. [[1 / 2, 1 / 2], [1 / 4, 3 / 4]] ! 1 ! j)
       (\<Sum>j \<in> {..<state_dim ltr_ex}. sint (tc ! 1 ! j)) g0 = Inr (draws, g1) \<and>
     np_multinomial det_env (sum_list draws)
       (map (\<lambda>j. [[1 / 2, 1 / 2], [1 / 4, 3 / 4]] ! 1 ! j
                   / (\<Sum>j' \<in> {..<1}. [[1 / 2, 1 / 2], [1 / 4, 3 / 4]] ! 1 ! j')) [0..<1]) g1
       = Inr (split, g2) \<and>
     [[1, 1], [2, 1]] ! 1 = (if length split = 1 then map word_of_int split
                else replicate 1 (word_of_int (hd split))) @ drop 1 (tc ! 1))"
proof -
  have k: "klass ltr_ex = LTRHDPHMMTransitions \<or> klass ltr_ex = StickyLTRHDPHMMTransitions"
    by (simp add: ltr_ex_def)
  have run: "count_transitions det_env ltr_ex [[0, 0, 1, 1]] 0
     = Inr ([[1, 1], [2, 1]], ltr_ex\<lparr>trans_counts := Some [[1, 1], [2, 1]]\<rparr>, 4)"
    by code_simp
  have fa: "fullA ltr_ex = Some [[1 / 2, 1 / 2], [1 / 4, 3 / 4]]"
    by (simp add: ltr_ex_def)
  have sq: "square (state_dim ltr_ex) [[1 / 2, 1 / 2], [1 / 4, 3 / 4 :: real]]"
    by (simp add: square_def ltr_ex_def self_ex_def new_object_def)
  have i: "1 < state_dim ltr_ex"
    by (simp add: ltr_ex_def self_ex_def new_object_def)
  show ?thesis
    using ltr_count_augmentation [OF k run fa sq i] k run fa sq i by simp
qed

text \<open>
  The claim as stated (the split goes to the forward columns, with the probabilities of
  the upper-triangular part) fails on row 1 of the base counts \<open>[[1, 1], [0, 1]]\<close>: the
  source writes the total 2 to column 0 and leaves column 1; the claim's wording would
  leave column 0 and write the total to column 1.
\<close>

theorem ltr_split_forward_counterexample:
  "LTR_row det_env [[1 / 2, 1 / 2], [1 / 4, 3 / 4]] (sum_axis1 [[1, 1], [0, 1]])
     (map sum_list (triu [[1 / 2, 1 / 2], [1 / 4, 3 / 4]])) ([[1, 1], [0, 1]], 1) 1
     = Inr ([[1, 1], [2, 1]], 3) \<and>
   LTR_row_claimed det_env [[1 / 2, 1 / 2], [1 / 4, 3 / 4]] (sum_axis1 [[1, 1], [0, 1]])
     (map sum_list (triu [[1 / 2, 1 / 2], [1 / 4, 3 / 4]])) ([[1, 1], [0, 1]], 1) 1
     = Inr ([[1, 1], [0, 2]], 3) \<and>
   LTR_row det_env [[1 / 2, 1 / 2], [1 / 4, 3 / 4]] (sum_axis1 [[1, 1], [0, 1]])
     (map sum_list (triu [[1 / 2, 1 / 2], [1 / 4, 3 / 4]])) ([[1, 1], [0, 1]], 1) 1
   \<noteq> LTR_row_claimed det_env [[1 / 2, 1 / 2], [1 / 4, 3 / 4]] (sum_axis1 [[1, 1], [0, 1]])
     (map sum_list (triu [[1 / 2, 1 / 2], [1 / 4, 3 / 4]])) ([[1, 1], [0, 1]], 1) 1"
proof -
  have a: "LTR_row det_env [[1 / 2, 1 / 2], [1 / 4, 3 / 4]] (sum_axis1 [[1, 1], [0, 1]])
     (map sum_list (triu [[1 / 2, 1 / 2], [1 / 4, 3 / 4]])) ([[1, 1], [0, 1]], 1) 1
     = Inr ([[1, 1], [2, 1]], 3)"
    by code_simp
  have b: "LTR_row_claimed det_env [[1 / 2, 1 / 2], [1 / 4, 3 / 4]] (sum_axis1 [[1, 1], [0, 1]])
     (map sum_list (triu [[1 / 2, 1 / 2], [1 / 4, 3 / 4]])) ([[1, 1], [0, 1]], 1) 1
     = Inr ([[1, 1], [0, 2]], 3)"
    by code_simp
  show ?thesis unfolding a b by simp
qed

subsection \<open>C4: the sticky left-to-right model adds kappa twice\<close>

text \<open>
  Claim C4 says that \<open>StickyLTRHDPHMMTransitions\<close> adds kappa once to the diagonal of the
  counts before the left-to-right step. The addition does come before the left-to-right
  step, but it happens twice: \<^verbatim>\<open>StickyLTRHDPHMMTransitions._resample_A\<close> adds kappa and
  calls \<^verbatim>\<open>LTRHDPHMMTransitions._resample_A\<close>, whose \<^verbatim>\<open>super\<close> call continues, in the
  method resolution order of the sticky left-to-right class, with
  \<^verbatim>\<open>StickyHDPHMMTransitions._resample_A\<close>, which adds kappa again. So \<^verbatim>\<open>_resample_A\<close>
  on \<open>n\<close> by \<open>n\<close> counts is the left-to-right step of the plain class on the counts with
  \<open>2 * kappa\<close> on the diagonal, and the Gamma shape parameters are
  \<open>alpha*beta[j] + counts[i][j] + 2*kappa*[i=j] + 1/100\<close>.
\<close>

theorem sticky_ltr_adds_kappa_twice:
  assumes "klass self = StickyLTRHDPHMMTransitions" and "square n data" and "0 < n"
    and "length b = n"
  shows "resample_A R self data g =
           LTR_resample_A HDPHMM_resample_A R self
             (map (\<lambda>i. map (\<lambda>j. data ! i ! j + (if i = j then 2 * kappa self else 0)) [0..<n])
                [0..<n]) g \<and>
         gamma_shape self b
             (map (\<lambda>i. map (\<lambda>j. data ! i ! j + (if i = j then 2 * kappa self else 0)) [0..<n])
                [0..<n])
           = Inr (map (\<lambda>i. map (\<lambda>j. alpha self * b ! j + data ! i ! j
                                     + (if i = j then 2 * kappa self else 0) + 1 / 100) [0..<n])
                    [0..<n])"
proof -
  let ?aug1 = "map (\<lambda>i. map (\<lambda>j. data ! i ! j + (if i = j then kappa self else 0)) [0..<n]) [0..<n]"
  let ?aug2 = "map (\<lambda>i. map (\<lambda>j. data ! i ! j + (if i = j then 2 * kappa self else 0)) [0..<n]) [0..<n]"
  have a1: "add_kappa_diag (kappa self) data = Inr ?aug1"
    by (rule add_kappa_diag_square [OF assms(2,3)])
  have eq: "map (\<lambda>i. map (\<lambda>j. ?aug1 ! i ! j + (if i = j then kappa self else 0)) [0..<n]) [0..<n] = ?aug2"
    by (intro nth_equalityI) auto
  have sq1: "square n ?aug1"
    by (rule square_tabulate)
  have a2: "add_kappa_diag (kappa self) ?aug1 = Inr ?aug2"
    unfolding eq [symmetric] by (rule add_kappa_diag_square [OF sq1 assms(3)])
  have "resample_A R self data g
          = StickyLTR_resample_A (LTR_resample_A (Sticky_resample_A HDPHMM_resample_A)) R self data g"
    using assms(1) by (simp add: resample_A_def)
  also have "\<dots> = LTR_resample_A (Sticky_resample_A HDPHMM_resample_A) R self ?aug1 g"
    by (simp add: StickyLTR_resample_A_def a1)
  also have "\<dots> = LTR_resample_A HDPHMM_resample_A R self ?aug2 g"
    by (simp add: LTR_resample_A_def Sticky_resample_A_def a2)
  finally have A: "resample_A R self data g = LTR_resample_A HDPHMM_resample_A R self ?aug2 g" .
  have B: "gamma_shape self b ?aug2
           = Inr (map (\<lambda>i. map (\<lambda>j. alpha self * b ! j + data ! i ! j
                                     + (if i = j then 2 * kappa self else 0) + 1 / 100) [0..<n])
                    [0..<n])"
    by (simp add: gamma_shape_square [OF square_tabulate assms(4)] add.assoc cong: map_cong)
  show ?thesis using A B by blast
qed


text \<open>
  On zero counts with \<open>alpha = 1\<close>, \<open>beta = [1/2, 1/2]\<close>, \<open>kappa = 1\<close>, in the
  environment whose Gamma draw returns its shape parameter: the diagonal shape is
  \<open>2.51\<close>, not the \<open>1.51\<close> of the claim, which is what the sibling class
  \<open>StickyHDPHMMTransitions\<close> uses on the same input.
\<close>



theorem sticky_ltr_adds_kappa_twice_witness:
  "klass sticky_ltr_ex = StickyLTRHDPHMMTransitions \<and> square 2 [[0, 0], [0, 0 :: real]] \<and>
   length [1 / 2, 1 / 2 :: real] = 2 \<and>
   resample_A det_env sticky_ltr_ex [[0, 0], [0, 0]] 0
     = LTR_resample_A HDPHMM_resample_A det_env sticky_ltr_ex [[2, 0], [0, 2]] 0 \<and>
   gamma_shape sticky_ltr_ex [1 / 2, 1 / 2] [[2, 0], [0, 2]]
     = Inr [[251 / 100, 51 / 100], [51 / 100, 251 / 100]] \<and>
   resample_A det_env sticky_ltr_ex [[0, 0], [0, 0]] 0
     = Inr (sticky_ltr_ex\<lparr>self_A := Some [[251 / 302, 51 / 302], [0, 1]],
                           fullA := Some [[251 / 302, 51 / 302], [51 / 302, 251 / 302]]\<rparr>, 4) \<and>
   resample_A det_env sticky_ex [[0, 0], [0, 0]] 0
     = Inr (sticky_ex\<lparr>self_A := Some [[151 / 202, 51 / 202], [51 / 202, 151 / 202]]\<rparr>, 4)"
proof -
  have k: "klass sticky_ltr_ex = StickyLTRHDPHMMTransitions"
    by (simp add: sticky_ltr_ex_def)
  have sq: "square 2 [[0, 0], [0, 0 :: real]]"
    by (simp add: square_def)
  have l: "length [1 / 2, 1 / 2 :: real] = 2"
    by simp
  have n: "[0..<2] = [0, 1]"
    by (simp add: upt_rec)
  have kp: "kappa sticky_ltr_ex = 1" "alpha sticky_ltr_ex = 1"
    by (simp_all add: sticky_ltr_ex_def self_ex_def new_object_def)
  have r1: "resample_A det_env sticky_ltr_ex [[0, 0], [0, 0]] 0
     = Inr (sticky_ltr_ex\<lparr>self_A := Some [[251 / 302, 51 / 302], [0, 1]],
                           fullA := Some [[251 / 302, 51 / 302], [51 / 302, 251 / 302]]\<rparr>, 4)"
    by code_simp
  have r2: "resample_A det_env sticky_ex [[0, 0], [0, 0]] 0
     = Inr (sticky_ex\<lparr>self_A := Some [[151 / 202, 51 / 202], [51 / 202, 151 / 202]]\<rparr>, 4)"
    by code_simp
  show ?thesis
    using sticky_ltr_adds_kappa_twice [OF k sq _ l, of det_env 0] k sq r1 r2
    by (simp add: n kp)
qed

subsection \<open>C5: the diagonal contribution of the semi-Markov augmentation\<close>

text \<open>
  Claim C5, as amended. When \<^verbatim>\<open>_augment_data\<close> returns (on \<open>L\<close> by \<open>L\<close> counts, with an
  \<open>L\<close> by \<open>L\<close> \<open>fullA\<close>), it has stored the result in \<^verbatim>\<open>self.trans_counts\<close>; counts
  that sum to 0 are returned unchanged; otherwise only the diagonal changes, and for every
  state \<open>i\<close> with row sum \<open>f_i\<close> of the counts: if \<open>f_i > 0\<close>, the geometric sampler was
  called for \<open>f_i\<close> draws with success parameter \<open>1 - fullA[i][i]\<close>, and the sum of those
  draws (cast to int32) was added to the diagonal cell; if \<open>f_i = 0\<close>, nothing was added.
  There is no special case for \<open>fullA[i][i] = 1\<close>: with \<open>f_i > 0\<close> the sampler is called
  with success parameter 0 and decides the outcome.
\<close>

theorem augment_diagonal_contribution:
  assumes "HSMM_augment_data R self tc g = Inr (tc', self', g')"
    and "square (state_dim self) tc" and "fullA self = Some fa" and "square (state_dim self) fa"
    and "i < state_dim self"
  shows "trans_counts self' = Some tc' \<and>
     (sum_all tc \<le> 0 \<longrightarrow> tc' = tc) \<and>
     (0 < sum_all tc \<longrightarrow>
        (\<forall>j < state_dim self. j \<noteq> i \<longrightarrow> tc' ! i ! j = tc ! i ! j) \<and>
        (0 < sum_axis1 tc ! i \<longrightarrow>
           (\<exists>draws g0 g1.
              np_geometric R (1 - fa ! i ! i) (sum_axis1 tc ! i) g0 = Inr (draws, g1) \<and>
              tc' ! i ! i = tc ! i ! i + word_of_int (sum_list draws))) \<and>
        (sum_axis1 tc ! i \<le> 0 \<longrightarrow> tc' ! i ! i = tc ! i ! i))"
proof (cases "0 < sum_all tc")
  case False
  then show ?thesis using assms(1) by (auto simp: HSMM_augment_data_def)
next
  case True
  let ?L = "state_dim self"
  let ?zs = "zip (diagonal fa) (sum_axis1 tc)"
  from True assms(1,3) obtain st g1 where
    m: "mapS (self_transition R) ?zs g = Inr (st, g1)"
    and a: "iadd_diag tc st = Inr tc'" and s: "self' = self\<lparr>trans_counts := Some tc'\<rparr>"
    by (auto simp: HSMM_augment_data_def getattr_def and_then_eq_Inr)
  have lz: "length ?zs = ?L"
    using assms(2,4) by (simp add: diagonal_square sum_axis1_def square_length)
  have zi: "?zs ! i = (fa ! i ! i, sum_axis1 tc ! i)"
    using assms(2,4,5) by (simp add: diagonal_square sum_axis1_def square_length)
  from mapS_Inr [OF m] have lst0: "length st = length ?zs"
    and every: "\<forall>k<length ?zs. \<exists>g0 g1. self_transition R (?zs ! k) g0 = Inr (st ! k, g1)"
    by blast+
  have lst: "length st = ?L" using lst0 lz by (simp only:)
  have "i < length ?zs" using lz assms(5) by (simp only:)
  with every obtain g0 g2 where t: "self_transition R (?zs ! i) g0 = Inr (st ! i, g2)"
    by blast
  note st = self_transition_Inr [OF t [unfolded zi]]
  have off: "tc' ! i ! j = tc ! i ! j" if "j < ?L" "j \<noteq> i" for j
    using iadd_diag_square [OF assms(2) lst a assms(5) that(1)] that(2) by simp
  have on: "tc' ! i ! i = tc ! i ! i + word_of_int (st ! i)"
    using iadd_diag_square [OF assms(2) lst a assms(5) assms(5)] by simp
  have pos: "\<exists>draws g0 g1.
              np_geometric R (1 - fa ! i ! i) (sum_axis1 tc ! i) g0 = Inr (draws, g1) \<and>
              tc' ! i ! i = tc ! i ! i + word_of_int (sum_list draws)"
    if "0 < sum_axis1 tc ! i"
  proof -
    from st that obtain draws where
      d: "np_geometric R (1 - fa ! i ! i) (sum_axis1 tc ! i) g0 = Inr (draws, g2)"
        "st ! i = sum_list draws"
      by blast
    show ?thesis
      using d on by (intro exI [of _ draws] exI [of _ g0] exI [of _ g2]) simp
  qed
  have zero: "tc' ! i ! i = tc ! i ! i" if "sum_axis1 tc ! i \<le> 0"
    using st that on by simp
  have "trans_counts self' = Some tc'" using s by simp
  then show ?thesis using True off pos zero by (intro conjI impI allI) simp_all
qed


theorem augment_diagonal_contribution_witness:
  "HSMM_augment_data det_env hsmm_ex tc_aug_ex 0
     = Inr ([[2, 1], [3, 6]], hsmm_ex\<lparr>trans_counts := Some [[2, 1], [3, 6]]\<rparr>, 2) \<and>
   square (state_dim hsmm_ex) tc_aug_ex \<and>
   fullA hsmm_ex = Some [[1 / 2, 1 / 2], [1 / 4, 3 / 4]] \<and>
   square (state_dim hsmm_ex) [[1 / 2, 1 / 2], [1 / 4, 3 / 4 :: real]] \<and>
   1 < state_dim hsmm_ex \<and> 0 < sum_all tc_aug_ex \<and> 0 < sum_axis1 tc_aug_ex ! 1 \<and>
   (\<exists>draws g0 g1.
      np_geometric det_env (1 - [[1 / 2, 1 / 2], [1 / 4, 3 / 4]] ! 1 ! 1) (sum_axis1 tc_aug_ex ! 1) g0
        = Inr (draws, g1) \<and>
      [[2, 1], [3, 6 :: int32]] ! 1 ! 1 = tc_aug_ex ! 1 ! 1 + word_of_int (sum_list draws))"
proof -
  have run: "HSMM_augment_data det_env hsmm_ex tc_aug_ex 0
     = Inr ([[2, 1], [3, 6]], hsmm_ex\<lparr>trans_counts := Some [[2, 1], [3, 6]]\<rparr>, 2)"
    by code_simp
  have sq: "square (state_dim hsmm_ex) tc_aug_ex"
    by (simp add: square_def tc_aug_ex_def hsmm_ex_def self_ex_def new_object_def)
  have fa: "fullA hsmm_ex = Some [[1 / 2, 1 / 2], [1 / 4, 3 / 4]]"
    by (simp add: hsmm_ex_def)
  have sqf: "square (state_dim hsmm_ex) [[1 / 2, 1 / 2], [1 / 4, 3 / 4 :: real]]"
    by (simp add: square_def hsmm_ex_def self_ex_def new_object_def)
  have i: "1 < state_dim hsmm_ex"
    by (simp add: hsmm_ex_def self_ex_def new_object_def)
  have p: "0 < sum_all tc_aug_ex" "0 < sum_axis1 tc_aug_ex ! 1"
    by (simp_all add: sum_all_def sum_axis1_def tc_aug_ex_def)
  show ?thesis
    using augment_diagonal_contribution [OF run sq fa sqf i] run sq fa sqf i p by simp
qed

text \<open>
  The claim as stated fails where \<open>fullA[0][0] = 1\<close> and state 0 has one transition out:
  the sampler is asked for a geometric draw with success parameter 0, which numpy (and
  the environment here) rejects with ValueError; the contribution is not 0.
\<close>

theorem augment_pi_one_counterexample:
  "fullA hsmm_one_ex = Some [[1, 0], [1 / 2, 1 / 2]] \<and>
   diagonal [[1, 0], [1 / 2, 1 / 2 :: real]] ! 0 = 1 \<and> sum_axis1 tc_aug_ex ! 0 = 1 \<and>
   HSMM_augment_data det_env hsmm_one_ex tc_aug_ex 0 = Inl ValueError"
proof -
  have "HSMM_augment_data det_env hsmm_one_ex tc_aug_ex 0 = Inl ValueError"
    by code_simp
  then show ?thesis
    by (simp add: hsmm_one_ex_def diagonal_def sum_axis1_def tc_aug_ex_def)
qed

subsection \<open>C6: the state after resampling\<close>

text \<open>
  Claim C6. After every \<^verbatim>\<open>resample\<close> call, and so after any number of successive
  calls, for every transition class and every \<open>L\<close>: \<open>beta\<close> has length \<open>L\<close>, sums to 1
  and has no negative entry; \<open>A\<close> is \<open>L\<close> by \<open>L\<close>, each row sums to 1, no entry is
  negative, and in the semi-Markov classes the diagonal is 0; \<open>fullA\<close> (semi-Markov and
  left-to-right classes) is \<open>L\<close> by \<open>L\<close>; and \<open>L\<close> and the class are unchanged. This is
  the state \<open>self'\<close> that the last of the calls returns; a call that raises returns no
  state. The sums are exact (the floats are read as reals), and the samplers return
  values in the support of their distributions (\<open>sampler_contract\<close>).
\<close>

theorem resamples_invariants:
  assumes "sampler_contract R" and "klass self \<noteq> ConcentrationResampling"
    and "resamples R self (states_list # rest) g = Inr (self', g')"
  shows "resampled_state self' \<and> state_dim self' = state_dim self \<and> klass self' = klass self"
  using assms(2,3)
proof (induction rest arbitrary: self states_list g)
  case Nil
  then have "resample R self states_list g = Inr (self', g')"
    by (auto simp: and_then_eq_Inr)
  from resample_call_invariants [OF assms(1) this Nil.prems(1)] show ?case .
next
  case (Cons next_list rest)
  from Cons.prems(2) obtain s1 g1 where
    a: "resample R self states_list g = Inr (s1, g1)"
    and b: "resamples R s1 (next_list # rest) g1 = Inr (self', g')"
    by (auto simp: and_then_eq_Inr)
  from resample_call_invariants [OF assms(1) a Cons.prems(1)] have
    f: "state_dim s1 = state_dim self" "klass s1 = klass self" by simp_all
  then have "klass s1 \<noteq> ConcentrationResampling" using Cons.prems(1) by simp
  from Cons.IH [OF this b] f show ?case by simp
qed


theorem resamples_invariants_witness:
  "sampler_contract det_env \<and> klass hsmm_ex \<noteq> ConcentrationResampling \<and>
   (\<exists>self'. resamples det_env hsmm_ex [[[0, 1, 0]], [[0, 0, 1, 1, 0]]] 0 = Inr (self', 26) \<and>
      beta self' = Some [1 / 2, 1 / 2] \<and> self_A self' = Some [[0, 1], [1, 0]] \<and>
      fullA self' = Some [[251 / 402, 151 / 402], [151 / 402, 251 / 402]] \<and>
      resampled_state self' \<and> state_dim self' = state_dim hsmm_ex \<and> klass self' = klass hsmm_ex)"
proof -
  have k: "klass hsmm_ex \<noteq> ConcentrationResampling"
    by (simp add: hsmm_ex_def)
  have run: "resamples det_env hsmm_ex [[[0, 1, 0]], [[0, 0, 1, 1, 0]]] 0
     = Inr (hsmm_ex\<lparr>self_A := Some [[0, 1], [1, 0]],
              fullA := Some [[251 / 402, 151 / 402], [151 / 402, 251 / 402]],
              trans_counts := Some [[2, 1], [1, 2]], self_m := Some [[1, 1], [1, 1]]\<rparr>, 26)"
    by code_simp
  show ?thesis
    using resamples_invariants [OF det_env_contract k run] det_env_contract k run
    by (simp add: hsmm_ex_def self_ex_def new_object_def)
qed


subsection \<open>C7: the table-count matrix, cell by cell\<close>

text \<open>
  Claim C7. When \<^verbatim>\<open>_get_m\<close> returns, on an \<open>L\<close> by \<open>L\<close> count matrix, it has stored
  \<open>m\<close> in \<^verbatim>\<open>self.m\<close>, and for every cell \<open>(i, j)\<close>: a count \<open>n > 0\<close> gives
  \<open>m[i][j]\<close> = the number of successes among \<open>n\<close> Bernoulli trials made with \<open>n\<close> uniform
  draws, trial \<open>k = 0..n-1\<close> succeeding with the threshold
  \<open>alpha*beta[j] / (k + alpha*beta[j])\<close>; a count 0 gives \<open>m[i][j] = 0\<close>; and an all-zero
  count matrix gives the zero matrix.
\<close>

theorem get_m_cell_by_cell:
  assumes "HDPHMM_get_m R self tc g = Inr (m, self', g')"
    and "square (state_dim self) tc" and "i < state_dim self" and "j < state_dim self"
  shows "self_m self' = Some m \<and>
     (tc ! i ! j = 0 \<longrightarrow> m ! i ! j = 0) \<and>
     (0 < sint (tc ! i ! j) \<longrightarrow>
        (\<exists>b g0. beta self = Some b \<and> j < length b \<and>
           sint (m ! i ! j)
             = int (crp_successes R (alpha self * b ! j) (nat (sint (tc ! i ! j))) g0))) \<and>
     (all_zero tc \<longrightarrow> m = zeros (state_dim self))"
proof (cases "all_zero tc")
  case True
  then have m: "m = zeros (state_dim self)" and s: "self_m self' = Some m"
    using assms(1) by (auto simp: HDPHMM_get_m_def)
  have "tc ! i ! j = 0"
    using True assms(2-4) by (auto simp: all_zero_def list_all_length square_length square_nth)
  then show ?thesis using m s assms(3,4) by (simp add: zeros_nth)
next
  case False
  let ?L = "state_dim self"
  from False assms(1) have f: "foldE (get_m_cell R self) (ndenumerate tc) (zeros ?L, g) = Inr (m, g')"
    and s: "self_m self' = Some m"
    by (auto simp: HDPHMM_get_m_def and_then_eq_Inr)
  have cell: "((i, j), tc ! i ! j) \<in> set (ndenumerate tc)"
    using assms(2-4) by (simp add: ndenumerate_set square_length square_nth)
  from foldE_get_m [OF f ndenumerate_distinct] cell obtain b g1 where
    nn: "0 \<le> sint (tc ! i ! j)" and b: "beta self = Some b" "j < length b"
    and v: "m ! i ! j = of_nat (crp_successes R (alpha self * b ! j) (nat (sint (tc ! i ! j))) g1)"
    by blast
  have z: "m ! i ! j = 0" if "tc ! i ! j = 0"
    using v that by (simp add: crp_successes_def)
  have "sint (m ! i ! j) = int (crp_successes R (alpha self * b ! j) (nat (sint (tc ! i ! j))) g1)"
    unfolding v by (rule sint_of_nat_32) (rule crp_successes_le)
  then show ?thesis using False s z b by blast
qed


theorem get_m_cell_by_cell_witness:
  "HDPHMM_get_m det_env self_ex tc_ex 0
     = Inr ([[0, 1], [1, 0]], self_ex\<lparr>self_m := Some [[0, 1], [1, 0]]\<rparr>, 3) \<and>
   square (state_dim self_ex) tc_ex \<and> 1 < state_dim self_ex \<and> 0 < state_dim self_ex \<and>
   0 < sint (tc_ex ! 1 ! 0) \<and>
   (\<exists>b g0. beta self_ex = Some b \<and> 0 < length b \<and>
      sint ([[0, 1], [1, 0 :: int32]] ! 1 ! 0)
        = int (crp_successes det_env (alpha self_ex * b ! 0) (nat (sint (tc_ex ! 1 ! 0))) g0))"
proof -
  have run: "HDPHMM_get_m det_env self_ex tc_ex 0
     = Inr ([[0, 1], [1, 0]], self_ex\<lparr>self_m := Some [[0, 1], [1, 0]]\<rparr>, 3)"
    by code_simp
  have sq: "square (state_dim self_ex) tc_ex"
    by (simp add: square_def tc_ex_def self_ex_def new_object_def)
  have i: "1 < state_dim self_ex" and j: "0 < state_dim self_ex"
    by (simp_all add: self_ex_def new_object_def)
  have p: "0 < sint (tc_ex ! 1 ! 0)"
    by (simp add: tc_ex_def)
  show ?thesis
    using get_m_cell_by_cell [OF run sq i j] run sq i j p by simp
qed

subsection \<open>C9: a backward transition fails the assertion of the left-to-right models\<close>

text \<open>
  Claim C9, as amended. For the left-to-right classes (\<open>LTRHDPHMMTransitions\<close> and
  \<open>StickyLTRHDPHMMTransitions\<close>), when the input labels are state indices \<open>0 \<le> s < L\<close>,
  some sequence has an adjacent pair \<open>i \<rightarrow> j\<close> with \<open>j < i\<close>, and the input has fewer than
  \<open>2^32\<close> adjacent pairs in all, the counting step fails with AssertionError, and
  therefore so does \<^verbatim>\<open>resample\<close>. The assertion is reached before any sampler is called
  and before \<open>fullA\<close> is read: the result is the same for every environment and whether
  or not \<open>fullA\<close> is set. The bound is on the size of the input: the counters are int32,
  and the assertion tests the counters, not the sequences.
\<close>

theorem ltr_backward_transition_asserts:
  assumes "klass self = LTRHDPHMMTransitions \<or> klass self = StickyLTRHDPHMMTransitions"
    and "labels_in_range (state_dim self) states_list"
    and "sum_list (map (\<lambda>states. length states - 1) states_list) < 2 ^ 32"
    and "has_backward_transition states_list"
  shows "count_transitions R self states_list g = Inl AssertionError \<and>
         resample R self states_list g = Inl AssertionError"
proof -
  have c: "count_transitions R self states_list g = Inl AssertionError"
    using assms(1) ltr_count_backward [OF assms(2-4), of R g]
    by (auto simp: count_transitions_def)
  have "resample R self states_list g = HDPHMM_resample R self states_list g"
    using assms(1) by (auto simp: resample_def)
  then show ?thesis using c by (simp add: HDPHMM_resample_def)
qed


theorem ltr_backward_transition_asserts_witness:
  "(klass ltr_ex = LTRHDPHMMTransitions \<or> klass ltr_ex = StickyLTRHDPHMMTransitions) \<and>
   labels_in_range (state_dim ltr_ex) [[0, 1, 0]] \<and>
   sum_list (map (\<lambda>states. length states - 1) [[0, 1, 0 :: int]]) < 2 ^ 32 \<and>
   has_backward_transition [[0, 1, 0]] \<and>
   count_transitions det_env ltr_ex [[0, 1, 0]] 0 = Inl AssertionError \<and>
   resample det_env ltr_ex [[0, 1, 0]] 0 = Inl AssertionError"
proof -
  have k: "klass ltr_ex = LTRHDPHMMTransitions \<or> klass ltr_ex = StickyLTRHDPHMMTransitions"
    by (simp add: ltr_ex_def)
  have r: "labels_in_range (state_dim ltr_ex) [[0, 1, 0]]"
    by (simp add: labels_in_range_def ltr_ex_def self_ex_def new_object_def)
  have n: "sum_list (map (\<lambda>states. length states - 1) [[0, 1, 0 :: int]]) < 2 ^ 32"
    by simp
  have b: "has_backward_transition [[0, 1, 0]]"
    by (simp add: has_backward_transition_def adjacent_def)
  show ?thesis
    using ltr_backward_transition_asserts [OF k r n b, of det_env 0] k r n b by simp
qed

text \<open>
  The claim as stated, for every input with a backward transition, fails on the input
  of \<open>2^32\<close> sequences \<open>[1, 0]\<close>: its labels are state indices and each sequence is a
  backward transition, but the counter of \<open>1 \<rightarrow> 0\<close> has wrapped around to 0 when the
  assertion tests it. The assertion passes, the counting step returns a matrix of
  zeros, and \<^verbatim>\<open>resample\<close> returns a new state; on an instance with no \<open>fullA\<close> the
  call ends with AttributeError, not with the assertion.
\<close>

theorem ltr_counter_wraps_counterexample:
  "klass ltr_ex = LTRHDPHMMTransitions \<and> klass ltr_new_ex = LTRHDPHMMTransitions \<and>
   labels_in_range (state_dim ltr_ex) wrap_input \<and>
   has_backward_transition wrap_input \<and>
   sum_list (map (\<lambda>states. length states - 1) wrap_input) = 2 ^ 32 \<and>
   count_transitions det_env ltr_ex wrap_input 0
     = Inr ([[0, 0], [0, 0]], ltr_ex\<lparr>trans_counts := Some [[0, 0], [0, 0]]\<rparr>, 4) \<and>
   resample det_env ltr_ex wrap_input 0
     = Inr (ltr_ex\<lparr>self_A := Some [[1 / 2, 1 / 2], [0, 1]],
              fullA := Some [[1 / 2, 1 / 2], [1 / 2, 1 / 2]],
              trans_counts := Some [[0, 0], [0, 0]], self_m := Some [[0, 0], [0, 0]]\<rparr>, 9) \<and>
   count_transitions det_env ltr_new_ex wrap_input 0 = Inl AttributeError \<and>
   resample det_env ltr_new_ex wrap_input 0 = Inl AttributeError"
proof -
  have k: "klass ltr_ex = LTRHDPHMMTransitions \<or> klass ltr_ex = StickyLTRHDPHMMTransitions"
    and k': "klass ltr_new_ex = LTRHDPHMMTransitions \<or> klass ltr_new_ex = StickyLTRHDPHMMTransitions"
    by (simp_all add: ltr_ex_def ltr_new_ex_def)
  have n: "state_dim ltr_ex = 2" "state_dim ltr_new_ex = 2"
    by (simp_all add: ltr_ex_def ltr_new_ex_def self_ex_def new_object_def)
  have w: "HDPHMM_count_transitions ltr_ex wrap_input = HDPHMM_count_transitions ltr_ex []"
    and w': "HDPHMM_count_transitions ltr_new_ex wrap_input
               = HDPHMM_count_transitions ltr_new_ex []"
    by (rule wrap_input_count, simp add: n)+
  have c: "count_transitions det_env ltr_ex [] 0
     = Inr ([[0, 0], [0, 0]], ltr_ex\<lparr>trans_counts := Some [[0, 0], [0, 0]]\<rparr>, 4)"
    by code_simp
  have r: "resample det_env ltr_ex [] 0
     = Inr (ltr_ex\<lparr>self_A := Some [[1 / 2, 1 / 2], [0, 1]],
              fullA := Some [[1 / 2, 1 / 2], [1 / 2, 1 / 2]],
              trans_counts := Some [[0, 0], [0, 0]], self_m := Some [[0, 0], [0, 0]]\<rparr>, 9)"
    by code_simp
  have c': "count_transitions det_env ltr_new_ex [] 0 = Inl AttributeError"
    by code_simp
  have r': "resample det_env ltr_new_ex [] 0 = Inl AttributeError"
    by code_simp
  have l: "labels_in_range (state_dim ltr_ex) wrap_input"
    by (rule wrap_input_labels) (simp add: n)
  show ?thesis
    unfolding ltr_resample_by_count [OF k w] ltr_resample_by_count [OF k' w'] c r c' r'
    using l wrap_input_backward wrap_input_pairs
    by (simp add: ltr_ex_def ltr_new_ex_def)
qed


subsection \<open>C10: the left-to-right models read fullA before anything assigns it\<close>

text \<open>
  Claim C10. The counting step of the left-to-right classes reads \<^verbatim>\<open>self.fullA\<close>, which
  only \<^verbatim>\<open>_resample_A\<close> assigns, after counting. So a \<^verbatim>\<open>resample\<close> of an instance of
  \<open>LTRHDPHMMTransitions\<close> or \<open>StickyLTRHDPHMMTransitions\<close> without the attribute
  \<open>fullA\<close> fails with AttributeError on every input that passes the counting and the
  assertion (labels that are state indices, no backward transition). The inherited
  constructors never assign \<open>fullA\<close>: called without \<open>beta\<close> or without \<open>A\<close> they run
  that \<^verbatim>\<open>resample\<close> on the empty list and fail with AttributeError; called with both
  they return an instance that still has no \<open>fullA\<close>. On any input at all, a
  \<^verbatim>\<open>resample\<close> without \<open>fullA\<close> fails (with the error of the counting or of the
  assertion when the input does not pass them).
\<close>

theorem ltr_first_resample_attribute_error:
  "((klass self = LTRHDPHMMTransitions \<or> klass self = StickyLTRHDPHMMTransitions) \<and>
    fullA self = None \<and> labels_in_range (state_dim self) states_list \<and>
    \<not> has_backward_transition states_list
      \<longrightarrow> resample R self states_list g = Inl AttributeError) \<and>
   ((klass self = LTRHDPHMMTransitions \<or> klass self = StickyLTRHDPHMMTransitions) \<and>
    fullA self = None
      \<longrightarrow> (\<exists>e. resample R self states_list g = Inl e)) \<and>
   (A' = None \<or> beta' = None
      \<longrightarrow> HDPHMM_init R (new_object LTRHDPHMMTransitions) L a gm beta' A' g = Inl AttributeError \<and>
          Sticky_init R (new_object StickyLTRHDPHMMTransitions) k L a gm beta' A' g
            = Inl AttributeError) \<and>
   (A' \<noteq> None \<and> beta' \<noteq> None
      \<longrightarrow> (\<exists>s. HDPHMM_init R (new_object LTRHDPHMMTransitions) L a gm beta' A' g = Inr (s, g) \<and>
               fullA s = None) \<and>
          (\<exists>s. Sticky_init R (new_object StickyLTRHDPHMMTransitions) k L a gm beta' A' g = Inr (s, g) \<and>
               fullA s = None))"
proof (intro conjI impI)
  assume "(klass self = LTRHDPHMMTransitions \<or> klass self = StickyLTRHDPHMMTransitions) \<and>
    fullA self = None \<and> labels_in_range (state_dim self) states_list \<and>
    \<not> has_backward_transition states_list"
  then show "resample R self states_list g = Inl AttributeError"
    by (intro ltr_resample_no_fullA) simp_all
next
  assume "(klass self = LTRHDPHMMTransitions \<or> klass self = StickyLTRHDPHMMTransitions) \<and>
    fullA self = None"
  then show "\<exists>e. resample R self states_list g = Inl e"
    by (intro ltr_resample_no_fullA_fails) simp_all
next
  assume "A' = None \<or> beta' = None"
  then show "HDPHMM_init R (new_object LTRHDPHMMTransitions) L a gm beta' A' g = Inl AttributeError"
    by (simp add: HDPHMM_init_def Let_def)
       (intro ltr_resample_no_fullA empty_input_ok, simp_all add: new_object_def)
next
  assume "A' = None \<or> beta' = None"
  then show "Sticky_init R (new_object StickyLTRHDPHMMTransitions) k L a gm beta' A' g
               = Inl AttributeError"
    by (simp add: Sticky_init_def HDPHMM_init_def Let_def)
       (intro ltr_resample_no_fullA empty_input_ok, simp_all add: new_object_def)
next
  assume "A' \<noteq> None \<and> beta' \<noteq> None"
  then show "\<exists>s. HDPHMM_init R (new_object LTRHDPHMMTransitions) L a gm beta' A' g = Inr (s, g) \<and>
               fullA s = None"
    by (auto simp: HDPHMM_init_def Let_def new_object_def)
next
  assume "A' \<noteq> None \<and> beta' \<noteq> None"
  then show "\<exists>s. Sticky_init R (new_object StickyLTRHDPHMMTransitions) k L a gm beta' A' g = Inr (s, g) \<and>
               fullA s = None"
    by (auto simp: Sticky_init_def HDPHMM_init_def Let_def new_object_def)
qed

theorem ltr_first_resample_attribute_error_witness:
  "(klass ltr_new_ex = LTRHDPHMMTransitions \<or> klass ltr_new_ex = StickyLTRHDPHMMTransitions) \<and>
   fullA ltr_new_ex = None \<and> labels_in_range (state_dim ltr_new_ex) [[0, 0, 1]] \<and>
   \<not> has_backward_transition [[0, 0, 1]] \<and>
   resample det_env ltr_new_ex [[0, 0, 1]] 0 = Inl AttributeError \<and>
   HDPHMM_init det_env (new_object LTRHDPHMMTransitions) 2 1 1 None None 0 = Inl AttributeError \<and>
   Sticky_init det_env (new_object StickyLTRHDPHMMTransitions) 1 2 1 1 None None 0 = Inl AttributeError \<and>
   (\<exists>s. HDPHMM_init det_env (new_object LTRHDPHMMTransitions) 2 1 1 (Some [1 / 2, 1 / 2])
           (Some [[1 / 2, 1 / 2], [0, 1]]) 0 = Inr (s, 0) \<and> fullA s = None)"
proof -
  have k: "klass ltr_new_ex = LTRHDPHMMTransitions \<or> klass ltr_new_ex = StickyLTRHDPHMMTransitions"
    by (simp add: ltr_new_ex_def)
  have f: "fullA ltr_new_ex = None"
    by (simp add: ltr_new_ex_def self_ex_def new_object_def)
  have r: "labels_in_range (state_dim ltr_new_ex) [[0, 0, 1]]"
    by (simp add: labels_in_range_def ltr_new_ex_def self_ex_def new_object_def)
  have b: "\<not> has_backward_transition [[0, 0, 1]]"
    by (simp add: has_backward_transition_def adjacent_def)
  show ?thesis
    using ltr_first_resample_attribute_error
      [of ltr_new_ex "[[0, 0, 1]]" det_env 0 None None 2 1 1 1]
      ltr_first_resample_attribute_error
      [of ltr_new_ex "[[0, 0, 1]]" det_env 0 "Some [[1 / 2, 1 / 2], [0, 1]]" "Some [1 / 2, 1 / 2]" 2 1 1 1]
      k f r b
    by simp
qed

end
